theory Spec2Isabelle
  imports Main "HOL-Library.Word" "HOL-Library.AList"
begin

section \<open>JavaScript values shared by the modules\<close>

text \<open>
  A JavaScript string is a sequence of 16-bit code units, a byte buffer (\<open>ArrayBuffer\<close>,
  \<open>Uint8Array\<close>) a sequence of 8-bit values. String literals of the source are written
  with \<open>js\<close>, which maps each ASCII character of the literal to its code unit.
\<close>

type_synonym code_unit = "16 word"
type_synonym jsstring = "code_unit list"
type_synonym bytes = "8 word list"

definition js :: "string \<Rightarrow> jsstring" where
  "js s = map of_char s"

text \<open>
  A thrown exception is a value: a \<open>DOMException\<close> of the platform with its name, an
  \<open>Error\<close> created by the source with its message, or one of the language's own
  \<open>SyntaxError\<close> and \<open>TypeError\<close>. A function that may throw returns
  \<open>js_error + 'a\<close>, with \<open>Inl\<close> for the exception.
\<close>

datatype dom_exception = InvalidCharacterError | OperationError | DataError

datatype js_error = DOMException dom_exception | Error jsstring | SyntaxError | TypeError

text \<open>
  An object used as a record from identities to strings (\<open>Record<string, string>\<close>) is
  the list of its own properties, as \<open>Object.entries\<close> lists them, together with what
  every such object inherits from \<open>Object.prototype\<close>. Reading \<open>obj[k]\<close> yields the
  own property \<open>k\<close> when there is one, the inherited member when \<open>k\<close> is one of the
  names of \<open>Object.prototype\<close>, and \<open>undefined\<close> otherwise. The inherited members are
  functions, but for \<open>__proto__\<close>, which reads as \<open>Object.prototype\<close> itself; the model
  keeps the text that the conversion to a string gives for them (engines differ in the
  white space of a native function's text, not in its brackets).

  The assignment \<open>obj[k] = s\<close> of a string replaces the own property \<open>k\<close> or adds
  it; no statement below depends on where a new key is placed. The one exception is the
  name \<open>__proto__\<close> on an object without such an own property: the assignment then
  reaches the setter of \<open>Object.prototype\<close>, which ignores a string, and the object is
  left as it was.
\<close>

datatype js_value = Undefined | Str jsstring | Inherited jsstring

definition object_prototype_names :: "jsstring list" where
  "object_prototype_names = map js
     [''constructor'', ''__defineGetter__'', ''__defineSetter__'', ''hasOwnProperty'',
      ''__lookupGetter__'', ''__lookupSetter__'', ''isPrototypeOf'', ''propertyIsEnumerable'',
      ''toString'', ''valueOf'', ''__proto__'', ''toLocaleString'']"

definition inherited_text :: "jsstring \<Rightarrow> jsstring" where
  "inherited_text k =
     (if k = js ''__proto__'' then js ''[object Object]''
      else js ''function '' @ (if k = js ''constructor'' then js ''Object'' else k)
           @ js ''() { [native code] }'')"

definition get_property :: "(jsstring \<times> jsstring) list \<Rightarrow> jsstring \<Rightarrow> js_value" where
  "get_property obj k =
     (case map_of obj k of
        Some s \<Rightarrow> Str s
      | None \<Rightarrow> if k \<in> set object_prototype_names then Inherited (inherited_text k)
                else Undefined)"

definition set_property ::
  "(jsstring \<times> jsstring) list \<Rightarrow> jsstring \<Rightarrow> jsstring \<Rightarrow> (jsstring \<times> jsstring) list" where
  "set_property obj k s =
     (if k = js ''__proto__'' \<and> k \<notin> fst ` set obj then obj else AList.update k s obj)"

text \<open>
  A value is falsy in a condition when it is \<open>undefined\<close> or the empty string; an object
  or a function is truthy. An argument of a platform function that takes a string is
  converted to one.
\<close>

definition falsy :: "js_value \<Rightarrow> bool" where
  "falsy v \<longleftrightarrow> v = Undefined \<or> v = Str []"

definition to_DOMString :: "js_value \<Rightarrow> jsstring" where
  "to_DOMString v =
     (case v of Undefined \<Rightarrow> js ''undefined'' | Str s \<Rightarrow> s | Inherited t \<Rightarrow> t)"

section \<open>Identity generator (lib/identity)\<close>

definition adjectives :: "jsstring list" where
  "adjectives = map js
    [''silent'', ''hidden'', ''shadow'', ''swift'', ''brave'', ''calm'', ''dark'', ''bright'',
     ''frost'', ''storm'', ''iron'', ''steel'', ''night'', ''dawn'', ''ghost'', ''noble'',
     ''wild'', ''free'', ''lone'', ''stark'', ''bold'', ''keen'', ''true'', ''wise'',
     ''deep'', ''high'', ''cold'', ''warm'', ''quick'', ''slow'', ''old'', ''young'',
     ''grey'', ''blue'', ''red'', ''black'', ''white'', ''gold'', ''silver'', ''copper'']"

definition nouns :: "jsstring list" where
  "nouns = map js
    [''wolf'', ''hawk'', ''raven'', ''fox'', ''bear'', ''lion'', ''tiger'', ''eagle'',
     ''serpent'', ''dragon'', ''phoenix'', ''falcon'', ''panther'', ''viper'', ''cobra'', ''owl'',
     ''shark'', ''whale'', ''storm'', ''thunder'', ''lightning'', ''flame'', ''frost'', ''shadow'',
     ''knight'', ''ranger'', ''scout'', ''guard'', ''sentinel'', ''warden'', ''seeker'', ''hunter'',
     ''cipher'', ''ghost'', ''phantom'', ''spectre'', ''wraith'', ''shade'', ''spirit'', ''oracle'']"

text \<open>
  \<open>getSecureRandomInt(max)\<close> reads one unsigned 32-bit value from the platform's random
  source and reduces it modulo \<open>max\<close>. The value read is an explicit argument here.
\<close>

definition getSecureRandomInt :: "nat \<Rightarrow> 32 word \<Rightarrow> nat" where
  "getSecureRandomInt mx r = unat r mod mx"

text \<open>
  \<open>String.prototype.charAt(0)\<close> is the empty string on the empty string, \<open>slice(1)\<close> drops
  the first code unit. \<open>toUpperCase\<close> is given on the ASCII letters, which is all the two
  word lists contain; other code units are left as they are.
\<close>

definition charAt0 :: "jsstring \<Rightarrow> jsstring" where
  "charAt0 s = take 1 s"

definition slice_from1 :: "jsstring \<Rightarrow> jsstring" where
  "slice_from1 s = drop 1 s"

definition upper_unit :: "code_unit \<Rightarrow> code_unit" where
  "upper_unit c = (if 97 \<le> c \<and> c \<le> 122 then c - 32 else c)"

definition toUpperCase :: "jsstring \<Rightarrow> jsstring" where
  "toUpperCase s = map upper_unit s"

text \<open>The decimal rendering of a non-negative integer, as a template literal inserts it.\<close>

definition digit_unit :: "nat \<Rightarrow> code_unit" where
  "digit_unit d = of_nat (48 + d)"

fun number_to_string :: "nat \<Rightarrow> jsstring" where
  "number_to_string n =
     (if n < 10 then [digit_unit n]
      else number_to_string (n div 10) @ [digit_unit (n mod 10)])"

declare number_to_string.simps [simp del]

definition generateUsername :: "32 word \<Rightarrow> 32 word \<Rightarrow> 32 word \<Rightarrow> jsstring" where
  "generateUsername r1 r2 r3 =
     (let adjective = adjectives ! getSecureRandomInt (length adjectives) r1;
          noun = nouns ! getSecureRandomInt (length nouns) r2;
          number = getSecureRandomInt 1000 r3;
          capitalizedAdjective = toUpperCase (charAt0 adjective) @ slice_from1 adjective;
          capitalizedNoun = toUpperCase (charAt0 noun) @ slice_from1 noun
      in capitalizedAdjective @ capitalizedNoun @ number_to_string number)"

record validation =
  valid :: bool
  error :: "jsstring option"

definition is_letter :: "code_unit \<Rightarrow> bool" where
  "is_letter c \<longleftrightarrow> (97 \<le> c \<and> c \<le> 122) \<or> (65 \<le> c \<and> c \<le> 90)"

definition is_digit :: "code_unit \<Rightarrow> bool" where
  "is_digit c \<longleftrightarrow> 48 \<le> c \<and> c \<le> 57"

text \<open>The regular expression \<open>/^[a-zA-Z][a-zA-Z0-9_]*$/\<close>, tested against the whole string.\<close>

definition username_pattern :: "jsstring \<Rightarrow> bool" where
  "username_pattern s =
     (case s of [] \<Rightarrow> False
      | c # cs \<Rightarrow> is_letter c \<and> list_all (\<lambda>d. is_letter d \<or> is_digit d \<or> d = 95) cs)"

definition validateUsername :: "jsstring \<Rightarrow> validation" where
  "validateUsername username =
     (if username = [] then
        \<lparr>valid = False, error = Some (js ''Username is required'')\<rparr>
      else if length username < 3 then
        \<lparr>valid = False, error = Some (js ''Username must be at least 3 characters'')\<rparr>
      else if length username > 30 then
        \<lparr>valid = False, error = Some (js ''Username must be 30 characters or less'')\<rparr>
      else if \<not> username_pattern username then
        \<lparr>valid = False, error = Some (js
          ''Username must start with a letter and contain only letters, numbers, and underscores'')\<rparr>
      else \<lparr>valid = True, error = None\<rparr>)"

text \<open>
  Two auxiliary notions for reasoning about the generator: a word of the lists (three to
  nine lower-case ASCII letters) and the capitalisation \<open>generateUsername\<close> applies.
\<close>

definition lower_word :: "jsstring \<Rightarrow> bool" where
  "lower_word w \<longleftrightarrow> 3 \<le> length w \<and> length w \<le> 9 \<and> list_all (\<lambda>c. 97 \<le> c \<and> c \<le> 122) w"

definition capitalize :: "jsstring \<Rightarrow> jsstring" where
  "capitalize w = toUpperCase (charAt0 w) @ slice_from1 w"

section \<open>Base64 helpers (lib/crypto)\<close>

text \<open>
  \<open>window.btoa\<close> and \<open>window.atob\<close> are the platform's base64 functions. \<open>btoa\<close>
  rejects a string with a code unit above 255 and otherwise encodes the code units as
  bytes, three bytes to four characters of the alphabet, padded with \<open>=\<close>. \<open>atob\<close> is
  the forgiving decoder: it removes ASCII whitespace, removes one or two trailing \<open>=\<close> when
  the length is a multiple of four, rejects a length that leaves remainder one and any
  character outside the alphabet, and decodes four characters to three bytes, dropping the
  surplus bits of a final group of two or three characters.
\<close>

definition b64_alphabet :: jsstring where
  "b64_alphabet = js ''ABCDEFGHIJKLMNOPQRSTUVWXYZabcdefghijklmnopqrstuvwxyz0123456789+/''"

definition b64_char :: "nat \<Rightarrow> code_unit" where
  "b64_char n = b64_alphabet ! n"

fun index_of :: "'a \<Rightarrow> 'a list \<Rightarrow> nat option" where
  "index_of x [] = None"
| "index_of x (y # ys) = (if x = y then Some 0 else map_option Suc (index_of x ys))"

definition b64_index :: "code_unit \<Rightarrow> nat option" where
  "b64_index c = index_of c b64_alphabet"

fun sextets :: "bytes \<Rightarrow> nat list" where
  "sextets (a # b # c # rest) =
     [unat a div 4, (unat a mod 4) * 16 + unat b div 16,
      (unat b mod 16) * 4 + unat c div 64, unat c mod 64] @ sextets rest"
| "sextets [a, b] = [unat a div 4, (unat a mod 4) * 16 + unat b div 16, (unat b mod 16) * 4]"
| "sextets [a] = [unat a div 4, (unat a mod 4) * 16]"
| "sextets [] = []"

definition b64_encode :: "bytes \<Rightarrow> jsstring" where
  "b64_encode bs = map b64_char (sextets bs) @ replicate ((3 - length bs mod 3) mod 3) 61"

definition btoa :: "jsstring \<Rightarrow> js_error + jsstring" where
  "btoa s = (if \<exists>c \<in> set s. 255 < c then Inl (DOMException InvalidCharacterError)
             else Inr (b64_encode (map ucast s)))"

definition ascii_whitespace :: "code_unit \<Rightarrow> bool" where
  "ascii_whitespace c \<longleftrightarrow> c = 9 \<or> c = 10 \<or> c = 12 \<or> c = 13 \<or> c = 32"

definition drop_eq :: "jsstring \<Rightarrow> jsstring" where
  "drop_eq s = (if s \<noteq> [] \<and> last s = 61 then butlast s else s)"

definition strip_padding :: "jsstring \<Rightarrow> jsstring" where
  "strip_padding s =
     (if length s mod 4 = 0 \<and> s \<noteq> [] \<and> last s = 61 then drop_eq (butlast s) else s)"

fun unsextets :: "nat list \<Rightarrow> bytes" where
  "unsextets (s1 # s2 # s3 # s4 # rest) =
     (let n = ((s1 * 64 + s2) * 64 + s3) * 64 + s4
      in [of_nat (n div 65536), of_nat (n div 256 mod 256), of_nat (n mod 256)] @ unsextets rest)"
| "unsextets [s1, s2, s3] =
     (let n = ((s1 * 64 + s2) * 64 + s3) div 4 in [of_nat (n div 256), of_nat (n mod 256)])"
| "unsextets [s1, s2] = [of_nat ((s1 * 64 + s2) div 16)]"
| "unsextets [s1] = []"
| "unsextets [] = []"

definition atob :: "jsstring \<Rightarrow> js_error + jsstring" where
  "atob s =
     (let d = strip_padding (filter (\<lambda>c. \<not> ascii_whitespace c) s)
      in if length d mod 4 = 1 then Inl (DOMException InvalidCharacterError)
         else case those (map b64_index d) of
                None \<Rightarrow> Inl (DOMException InvalidCharacterError)
              | Some sx \<Rightarrow> Inr (map ucast (unsextets sx)))"

text \<open>
  The two helpers of the source. \<open>arrayBufferToBase64\<close> appends one code unit per byte
  to a string and passes it to \<open>btoa\<close>; \<open>base64ToArrayBuffer\<close> allocates a zeroed
  \<open>Uint8Array\<close> of the decoded length and stores each code unit, truncated to eight bits,
  at its index.
\<close>

definition fromCharCode :: "8 word \<Rightarrow> code_unit" where
  "fromCharCode b = ucast b"

definition arrayBufferToBase64 :: "bytes \<Rightarrow> js_error + jsstring" where
  "arrayBufferToBase64 buffer =
     btoa (foldl (\<lambda>binary b. binary @ [fromCharCode b]) [] buffer)"

definition base64ToArrayBuffer :: "jsstring \<Rightarrow> js_error + bytes" where
  "base64ToArrayBuffer base64 =
     (case atob base64 of
        Inl e \<Rightarrow> Inl e
      | Inr binary_string \<Rightarrow>
          (let len = length binary_string
           in Inr (foldl (\<lambda>bytes i. bytes[i := ucast (binary_string ! i)])
                         (replicate len 0) [0..<len])))"




section \<open>Text encoding (TextEncoder, TextDecoder)\<close>

text \<open>
  \<open>new TextEncoder().encode(text)\<close> first reads the string as a sequence of Unicode scalar
  values: a high surrogate followed by a low surrogate is one supplementary code point,
  any other surrogate is replaced by U+FFFD. Each scalar value is then written in UTF-8.
\<close>

definition high_surrogate :: "code_unit \<Rightarrow> bool" where
  "high_surrogate c \<longleftrightarrow> 0xD800 \<le> c \<and> c \<le> 0xDBFF"

definition low_surrogate :: "code_unit \<Rightarrow> bool" where
  "low_surrogate c \<longleftrightarrow> 0xDC00 \<le> c \<and> c \<le> 0xDFFF"

definition surrogate :: "code_unit \<Rightarrow> bool" where
  "surrogate c \<longleftrightarrow> 0xD800 \<le> c \<and> c \<le> 0xDFFF"

fun scalar_values :: "jsstring \<Rightarrow> nat list" where
  "scalar_values [] = []"
| "scalar_values [c] = (if surrogate c then [0xFFFD] else [unat c])"
| "scalar_values (c # d # cs) =
     (if high_surrogate c \<and> low_surrogate d
      then (0x10000 + (unat c - 0xD800) * 0x400 + (unat d - 0xDC00)) # scalar_values cs
      else if surrogate c then 0xFFFD # scalar_values (d # cs)
      else unat c # scalar_values (d # cs))"

definition utf8_bytes :: "nat \<Rightarrow> nat list" where
  "utf8_bytes cp =
     (if cp < 0x80 then [cp]
      else if cp < 0x800 then [0xC0 + cp div 64, 0x80 + cp mod 64]
      else if cp < 0x10000 then [0xE0 + cp div 4096, 0x80 + cp div 64 mod 64, 0x80 + cp mod 64]
      else [0xF0 + cp div 262144, 0x80 + cp div 4096 mod 64, 0x80 + cp div 64 mod 64,
            0x80 + cp mod 64])"

definition TextEncoder_encode :: "jsstring \<Rightarrow> bytes" where
  "TextEncoder_encode s = map of_nat (concat (map utf8_bytes (scalar_values s)))"

text \<open>
  \<open>new TextDecoder().decode(buffer)\<close> runs the platform's UTF-8 decoder in replacement
  mode. Its state is the code point collected so far, the number of continuation bytes
  seen and needed, and the bounds the next byte must meet. A byte that cannot continue the
  sequence yields U+FFFD and is read again as the start of a new sequence; input that ends
  inside a sequence yields U+FFFD. The decoder is created with its default options, under
  which a leading U+FEFF of the decoded text is dropped as a byte order mark. The result
  is written as code units, a supplementary code point as a surrogate pair.
\<close>

function utf8_decoder :: "nat \<Rightarrow> nat \<Rightarrow> nat \<Rightarrow> nat \<Rightarrow> nat \<Rightarrow> nat list \<Rightarrow> nat list" where
  "utf8_decoder cp seen needed lower upper [] = (if needed \<noteq> 0 then [0xFFFD] else [])"
| "utf8_decoder cp seen needed lower upper (b # bs) =
     (if needed = 0 then
        (if b \<le> 0x7F then b # utf8_decoder 0 0 0 0x80 0xBF bs
         else if 0xC2 \<le> b \<and> b \<le> 0xDF then utf8_decoder (b mod 32) 0 1 0x80 0xBF bs
         else if 0xE0 \<le> b \<and> b \<le> 0xEF then
           utf8_decoder (b mod 16) 0 2 (if b = 0xE0 then 0xA0 else 0x80)
             (if b = 0xED then 0x9F else 0xBF) bs
         else if 0xF0 \<le> b \<and> b \<le> 0xF4 then
           utf8_decoder (b mod 8) 0 3 (if b = 0xF0 then 0x90 else 0x80)
             (if b = 0xF4 then 0x8F else 0xBF) bs
         else 0xFFFD # utf8_decoder 0 0 0 0x80 0xBF bs)
      else if \<not> (lower \<le> b \<and> b \<le> upper) then 0xFFFD # utf8_decoder 0 0 0 0x80 0xBF (b # bs)
      else if Suc seen \<noteq> needed then
        utf8_decoder (cp * 64 + b mod 64) (Suc seen) needed 0x80 0xBF bs
      else (cp * 64 + b mod 64) # utf8_decoder 0 0 0 0x80 0xBF bs)"
  by pat_completeness auto
termination
  by (relation "measure (\<lambda>(cp, seen, needed, lower, upper, bs).
        2 * length bs + (if needed = 0 then 0 else 1))") auto

definition strip_bom :: "nat list \<Rightarrow> nat list" where
  "strip_bom cps = (case cps of [] \<Rightarrow> [] | c # cs \<Rightarrow> if c = 0xFEFF then cs else c # cs)"

definition code_units :: "nat \<Rightarrow> jsstring" where
  "code_units cp =
     (if cp < 0x10000 then [of_nat cp]
      else [of_nat (0xD800 + (cp - 0x10000) div 0x400), of_nat (0xDC00 + (cp - 0x10000) mod 0x400)])"

definition TextDecoder_decode :: "bytes \<Rightarrow> jsstring" where
  "TextDecoder_decode bs =
     concat (map code_units (strip_bom (utf8_decoder 0 0 0 0x80 0xBF (map unat bs))))"

text \<open>
  A string is well formed when every surrogate in it is part of a pair, a high surrogate
  directly followed by a low one. A scalar value is a code point outside the surrogate
  range.
\<close>

fun well_formed :: "jsstring \<Rightarrow> bool" where
  "well_formed [] \<longleftrightarrow> True"
| "well_formed [c] \<longleftrightarrow> \<not> surrogate c"
| "well_formed (c # d # cs) \<longleftrightarrow>
     (if high_surrogate c \<and> low_surrogate d then well_formed cs
      else \<not> surrogate c \<and> well_formed (d # cs))"

definition scalar :: "nat \<Rightarrow> bool" where
  "scalar cp \<longleftrightarrow> cp < 0x110000 \<and> \<not> (0xD800 \<le> cp \<and> cp \<le> 0xDFFF)"

section \<open>The Web Crypto platform\<close>

text \<open>
  \<open>window.crypto.subtle\<close> is the browser's, not the repository's. Its four operations
  the source calls are parameters of the model: RSA-OAEP encryption under a public key
  (with the random seed of the padding as an argument) and decryption under a private key,
  AES-GCM encryption and decryption under a raw key and a nonce. \<open>None\<close> stands for an
  operation that fails; the platform then rejects the promise with the \<open>DOMException\<close>
  named \<open>OperationError\<close>. The types \<open>'pub\<close> and \<open>'priv\<close> are the RSA-OAEP keys with the
  usages \<open>importKey\<close> and \<open>generateKeyPair\<close> of the source give them; \<open>paired\<close> says
  which private key belongs to which public key.
\<close>

record ('pub, 'priv) subtle =
  paired :: "'pub \<Rightarrow> 'priv \<Rightarrow> bool"
  rsa_oaep_encrypt :: "'pub \<Rightarrow> bytes \<Rightarrow> bytes \<Rightarrow> bytes option"
  rsa_oaep_decrypt :: "'priv \<Rightarrow> bytes \<Rightarrow> bytes option"
  aes_gcm_encrypt :: "bytes \<Rightarrow> bytes \<Rightarrow> bytes \<Rightarrow> bytes option"
  aes_gcm_decrypt :: "bytes \<Rightarrow> bytes \<Rightarrow> bytes \<Rightarrow> bytes option"

definition subtle_result :: "bytes option \<Rightarrow> js_error + bytes" where
  "subtle_result r = (case r of None \<Rightarrow> Inl (DOMException OperationError) | Some b \<Rightarrow> Inr b)"

text \<open>
  An AES key is its raw bytes. \<open>importKey("raw", ...)\<close> for AES-GCM accepts 128, 192 or
  256 bits and rejects any other length with a \<open>DataError\<close>.
\<close>

definition importKey_raw :: "bytes \<Rightarrow> js_error + bytes" where
  "importKey_raw keyData =
     (if length keyData = 16 \<or> length keyData = 24 \<or> length keyData = 32 then Inr keyData
      else Inl (DOMException DataError))"

text \<open>
  The random source is a stream of bytes. One call of \<open>encryptMessage\<close> reads the 256-bit
  session key first, then the 12 bytes of the nonce, then one padding seed for each
  recipient in turn.
\<close>

type_synonym random_source = "nat \<Rightarrow> 8 word"

definition generateKey_aes :: "random_source \<Rightarrow> bytes" where
  "generateKey_aes rnd = map rnd [0..<32]"

definition getRandomValues12 :: "random_source \<Rightarrow> bytes" where
  "getRandomValues12 rnd = map rnd [32..<44]"

definition oaep_seed :: "random_source \<Rightarrow> nat \<Rightarrow> bytes" where
  "oaep_seed rnd i = map rnd [44 + 32 * i..<76 + 32 * i]"

text \<open>
  What the theorems below ask of the platform, each as a predicate of its own: wrapping a
  256-bit key under a public key succeeds with a non-empty result; the paired private key
  unwraps what the public key wrapped; a private key that is not paired with the public
  key fails to unwrap it; AES-GCM encryption under a 256-bit key and a 96-bit nonce
  succeeds; and decryption under the same key and nonce returns what was encrypted.
\<close>

definition wraps_succeed :: "('pub, 'priv) subtle \<Rightarrow> bool" where
  "wraps_succeed cr \<longleftrightarrow>
     (\<forall>pk seed data. length data = 32 \<longrightarrow>
        (\<exists>c. rsa_oaep_encrypt cr pk seed data = Some c \<and> c \<noteq> []))"

definition unwrap_correct :: "('pub, 'priv) subtle \<Rightarrow> bool" where
  "unwrap_correct cr \<longleftrightarrow>
     (\<forall>pk sk seed data c. paired cr pk sk \<longrightarrow> rsa_oaep_encrypt cr pk seed data = Some c \<longrightarrow>
        rsa_oaep_decrypt cr sk c = Some data)"

definition unwrap_isolated :: "('pub, 'priv) subtle \<Rightarrow> bool" where
  "unwrap_isolated cr \<longleftrightarrow>
     (\<forall>pk sk seed data c. \<not> paired cr pk sk \<longrightarrow> rsa_oaep_encrypt cr pk seed data = Some c \<longrightarrow>
        rsa_oaep_decrypt cr sk c = None)"

definition cipher_succeeds :: "('pub, 'priv) subtle \<Rightarrow> bool" where
  "cipher_succeeds cr \<longleftrightarrow>
     (\<forall>k nonce pt. length k = 32 \<longrightarrow> length nonce = 12 \<longrightarrow> aes_gcm_encrypt cr k nonce pt \<noteq> None)"

definition cipher_correct :: "('pub, 'priv) subtle \<Rightarrow> bool" where
  "cipher_correct cr \<longleftrightarrow>
     (\<forall>k nonce pt c. aes_gcm_encrypt cr k nonce pt = Some c \<longrightarrow>
        aes_gcm_decrypt cr k nonce c = Some pt)"

section \<open>Message encryption (lib/crypto)\<close>

text \<open>
  The envelope \<open>encryptMessage\<close> returns, with the field names of the source.
\<close>

record envelope =
  encryptedContent :: jsstring
  encryptedKeys :: "(jsstring \<times> jsstring) list"
  iv :: jsstring

text \<open>
  The loop of step 4: for each entry of \<open>Object.entries(recipientPublicKeys)\<close> it wraps
  the raw session key under that entry's public key and assigns the base64 of the result
  to \<open>encryptedKeys[userId]\<close>. The counter is the number of seeds read so far.
\<close>

fun wrap_keys ::
  "('pub, 'priv) subtle \<Rightarrow> random_source \<Rightarrow> bytes \<Rightarrow> nat \<Rightarrow> (jsstring \<times> 'pub) list
   \<Rightarrow> (jsstring \<times> jsstring) list \<Rightarrow> js_error + (jsstring \<times> jsstring) list" where
  "wrap_keys cr rnd rawSessionKey i [] acc = Inr acc"
| "wrap_keys cr rnd rawSessionKey i ((userId, publicKey) # entries) acc =
     (case subtle_result (rsa_oaep_encrypt cr publicKey (oaep_seed rnd i) rawSessionKey) of
        Inl e \<Rightarrow> Inl e
      | Inr encryptedKeyBuffer \<Rightarrow>
          (case arrayBufferToBase64 encryptedKeyBuffer of
             Inl e \<Rightarrow> Inl e
           | Inr s \<Rightarrow> wrap_keys cr rnd rawSessionKey (Suc i) entries
                        (set_property acc userId s)))"

definition encryptMessage ::
  "('pub, 'priv) subtle \<Rightarrow> random_source \<Rightarrow> jsstring \<Rightarrow> (jsstring \<times> 'pub) list
   \<Rightarrow> js_error + envelope" where
  "encryptMessage cr rnd text recipientPublicKeys =
     (let encodedText = TextEncoder_encode text;
          sessionKey = generateKey_aes rnd;
          nonce = getRandomValues12 rnd
      in case subtle_result (aes_gcm_encrypt cr sessionKey nonce encodedText) of
           Inl e \<Rightarrow> Inl e
         | Inr encryptedContentBuffer \<Rightarrow>
             (let rawSessionKey = sessionKey
              in case wrap_keys cr rnd rawSessionKey 0 recipientPublicKeys [] of
                   Inl e \<Rightarrow> Inl e
                 | Inr acc \<Rightarrow>
                     (case arrayBufferToBase64 encryptedContentBuffer of
                        Inl e \<Rightarrow> Inl e
                      | Inr contentString \<Rightarrow>
                          (case arrayBufferToBase64 nonce of
                             Inl e \<Rightarrow> Inl e
                           | Inr ivString \<Rightarrow>
                               Inr \<lparr>encryptedContent = contentString, encryptedKeys = acc,
                                    iv = ivString\<rparr>))))"

text \<open>
  \<open>decryptMessage\<close> takes the wrapped keys either as one string (the legacy shape) or as
  a record from identities to strings, and tells them apart with \<open>typeof\<close>. In the record
  shape it reads \<open>encryptedKeys[userId]\<close>; \<open>undefined\<close> and the empty string both count
  as absent (\<open>!encryptedKeyStr\<close>), an inherited member does not, and what was read is
  handed to \<open>atob\<close>, which takes it as a string.
  The arguments are evaluated in the order of the source: the wrapped key is decoded and
  unwrapped, the session key imported, then the nonce and the content are decoded and the
  content decrypted. The parameters \<open>encryptedContent\<close>, \<open>encryptedKeys\<close> and \<open>iv\<close> of
  the source are named \<open>contentString\<close>, \<open>keys\<close> and \<open>ivString\<close> here, since the
  envelope's fields hold the former names.
\<close>

datatype encrypted_keys = Legacy jsstring | KeyMap "(jsstring \<times> jsstring) list"

definition no_key_error :: "jsstring \<Rightarrow> js_error" where
  "no_key_error userId = Error (js ''No encrypted key found for user '' @ userId)"

definition select_key :: "encrypted_keys \<Rightarrow> jsstring \<Rightarrow> js_error + jsstring" where
  "select_key keys userId =
     (case keys of
        Legacy s \<Rightarrow> Inr s
      | KeyMap m \<Rightarrow>
          (let encryptedKeyStr = get_property m userId
           in if falsy encryptedKeyStr then Inl (no_key_error userId)
              else Inr (to_DOMString encryptedKeyStr)))"

definition decryptMessage ::
  "('pub, 'priv) subtle \<Rightarrow> jsstring \<Rightarrow> encrypted_keys \<Rightarrow> jsstring \<Rightarrow> 'priv \<Rightarrow> jsstring
   \<Rightarrow> js_error + jsstring" where
  "decryptMessage cr contentString keys ivString privateKey userId =
     (case select_key keys userId of
        Inl e \<Rightarrow> Inl e
      | Inr encryptedKeyStr \<Rightarrow>
     (case base64ToArrayBuffer encryptedKeyStr of
        Inl e \<Rightarrow> Inl e
      | Inr wrapped \<Rightarrow>
     (case subtle_result (rsa_oaep_decrypt cr privateKey wrapped) of
        Inl e \<Rightarrow> Inl e
      | Inr rawSessionKey \<Rightarrow>
     (case importKey_raw rawSessionKey of
        Inl e \<Rightarrow> Inl e
      | Inr sessionKey \<Rightarrow>
     (case base64ToArrayBuffer ivString of
        Inl e \<Rightarrow> Inl e
      | Inr ivBytes \<Rightarrow>
     (case base64ToArrayBuffer contentString of
        Inl e \<Rightarrow> Inl e
      | Inr contentBytes \<Rightarrow>
     (case subtle_result (aes_gcm_decrypt cr sessionKey ivBytes contentBytes) of
        Inl e \<Rightarrow> Inl e
      | Inr decryptedBuffer \<Rightarrow> Inr (TextDecoder_decode decryptedBuffer))))))))"

text \<open>
  Decrypting an envelope as \<open>encryptMessage\<close> returned it, and the round trip through
  both functions.
\<close>

definition decrypt_envelope ::
  "('pub, 'priv) subtle \<Rightarrow> envelope \<Rightarrow> 'priv \<Rightarrow> jsstring \<Rightarrow> js_error + jsstring" where
  "decrypt_envelope cr env privateKey userId =
     decryptMessage cr (encryptedContent env) (KeyMap (encryptedKeys env)) (iv env) privateKey userId"

definition decrypt_encrypted ::
  "('pub, 'priv) subtle \<Rightarrow> random_source \<Rightarrow> jsstring \<Rightarrow> (jsstring \<times> 'pub) list \<Rightarrow> 'priv
   \<Rightarrow> jsstring \<Rightarrow> js_error + jsstring" where
  "decrypt_encrypted cr rnd text recipientPublicKeys privateKey userId =
     (case encryptMessage cr rnd text recipientPublicKeys of
        Inl e \<Rightarrow> Inl e
      | Inr env \<Rightarrow> decrypt_envelope cr env privateKey userId)"

section \<open>Decrypting stored messages (context/ChatContext)\<close>

text \<open>
  \<open>fetchMessages\<close> maps an asynchronous function over the stored messages and awaits
  \<open>Promise.all\<close> of the results. The function parses the content of a message as JSON,
  reads the fields of the envelope and calls \<open>decryptMessage\<close>, all inside one
  \<open>try\<close>; the \<open>catch\<close> returns the message with a placeholder text.

  \<open>JSON.parse\<close> is the platform's and a parameter here: it throws or yields the parsed
  content, of which the model keeps the four fields the source reads, each absent
  (\<open>undefined\<close>) or of the type the source declares. The wrapped keys are
  \<open>parsedContent.encryptedKeys || parsedContent.encryptedKey\<close>; an absent value for them
  makes the property access in \<open>decryptMessage\<close> throw a \<open>TypeError\<close>, and an absent
  string reaches \<open>atob\<close> as the string \<open>undefined\<close>. The holder identity is
  \<open>user?.id || ""\<close>.
\<close>

record message =
  content :: jsstring
  sender_id :: jsstring

record parsed_content =
  pc_encryptedContent :: "jsstring option"
  pc_encryptedKeys :: "encrypted_keys option"
  pc_encryptedKey :: "encrypted_keys option"
  pc_iv :: "jsstring option"

record decrypted_message =
  msg :: message
  decryptedContent :: jsstring
  is_mine :: bool

definition truthy_keys :: "encrypted_keys option \<Rightarrow> bool" where
  "truthy_keys v = (case v of None \<Rightarrow> False | Some (Legacy s) \<Rightarrow> s \<noteq> [] | Some (KeyMap m) \<Rightarrow> True)"

definition keys_or_key :: "parsed_content \<Rightarrow> encrypted_keys option" where
  "keys_or_key parsedContent =
     (if truthy_keys (pc_encryptedKeys parsedContent) then pc_encryptedKeys parsedContent
      else pc_encryptedKey parsedContent)"

definition dom_string :: "jsstring option \<Rightarrow> jsstring" where
  "dom_string v = (case v of None \<Rightarrow> js ''undefined'' | Some s \<Rightarrow> s)"

definition user_id_or_empty :: "jsstring option \<Rightarrow> jsstring" where
  "user_id_or_empty user = (case user of None \<Rightarrow> [] | Some uid \<Rightarrow> uid)"

definition decryption_failed :: jsstring where
  "decryption_failed = [0x26A0, 0xFE0F] @ js '' Decryption Failed''"

definition try_decrypt ::
  "('pub, 'priv) subtle \<Rightarrow> (jsstring \<Rightarrow> js_error + parsed_content) \<Rightarrow> 'priv \<Rightarrow> jsstring option
   \<Rightarrow> message \<Rightarrow> js_error + jsstring" where
  "try_decrypt cr JSON_parse privateKey user m =
     (case JSON_parse (content m) of
        Inl e \<Rightarrow> Inl e
      | Inr parsedContent \<Rightarrow>
          (case keys_or_key parsedContent of
             None \<Rightarrow> Inl TypeError
           | Some keys \<Rightarrow>
               decryptMessage cr (dom_string (pc_encryptedContent parsedContent)) keys
                 (dom_string (pc_iv parsedContent)) privateKey (user_id_or_empty user)))"

definition decrypt_one ::
  "('pub, 'priv) subtle \<Rightarrow> (jsstring \<Rightarrow> js_error + parsed_content) \<Rightarrow> 'priv \<Rightarrow> jsstring option
   \<Rightarrow> message \<Rightarrow> js_error + decrypted_message" where
  "decrypt_one cr JSON_parse privateKey user m =
     (case try_decrypt cr JSON_parse privateKey user m of
        Inr decryptedText \<Rightarrow>
          Inr \<lparr>msg = m, decryptedContent = decryptedText, is_mine = (Some (sender_id m) = user)\<rparr>
      | Inl e \<Rightarrow>
          Inr \<lparr>msg = m, decryptedContent = decryption_failed, is_mine = (Some (sender_id m) = user)\<rparr>)"

text \<open>
  \<open>Promise.all\<close> is rejected with the first rejection among its promises and otherwise
  fulfilled with the list of their values.
\<close>

fun Promise_all :: "(js_error + 'a) list \<Rightarrow> js_error + 'a list" where
  "Promise_all [] = Inr []"
| "Promise_all (Inl e # ps) = Inl e"
| "Promise_all (Inr v # ps) = (case Promise_all ps of Inl e \<Rightarrow> Inl e | Inr vs \<Rightarrow> Inr (v # vs))"

definition decryptedMessages ::
  "('pub, 'priv) subtle \<Rightarrow> (jsstring \<Rightarrow> js_error + parsed_content) \<Rightarrow> 'priv \<Rightarrow> jsstring option
   \<Rightarrow> message list \<Rightarrow> js_error + decrypted_message list" where
  "decryptedMessages cr JSON_parse privateKey user data =
     Promise_all (map (decrypt_one cr JSON_parse privateKey user) data)"

text \<open>
  \<open>sendMessage\<close> stores \<open>JSON.stringify\<close> of the envelope as the content of a message.
  Parsed again, the envelope has its three fields and no \<open>encryptedKey\<close>.
\<close>

definition parsed_envelope :: "envelope \<Rightarrow> parsed_content" where
  "parsed_envelope env =
     \<lparr>pc_encryptedContent = Some (encryptedContent env),
      pc_encryptedKeys = Some (KeyMap (encryptedKeys env)),
      pc_encryptedKey = None,
      pc_iv = Some (iv env)\<rparr>"

section \<open>A reference platform\<close>

text \<open>
  A small platform on which the contract holds, used to instantiate the theorems. Keys
  are bytes, a private key is paired with the equal public key. Wrapping prefixes the
  data with the public key and one byte of the seed; unwrapping checks the first byte
  against the private key. The cipher prefixes the plaintext with a tag of two bytes taken
  from the key and the nonce, and decryption checks the tag.
\<close>

definition ref_tag :: "bytes \<Rightarrow> bytes \<Rightarrow> bytes" where
  "ref_tag k nonce = take 1 k @ take 1 nonce"

definition ref_platform :: "(8 word, 8 word) subtle" where
  "ref_platform =
     \<lparr>paired = (\<lambda>pk sk. pk = sk),
      rsa_oaep_encrypt = (\<lambda>pk seed data. Some (pk # (case seed of [] \<Rightarrow> 0 | s # _ \<Rightarrow> s) # data)),
      rsa_oaep_decrypt = (\<lambda>sk c. case c of k # s # data \<Rightarrow> if k = sk then Some data else None
                                   | _ \<Rightarrow> None),
      aes_gcm_encrypt = (\<lambda>k nonce pt. Some (ref_tag k nonce @ pt)),
      aes_gcm_decrypt = (\<lambda>k nonce c.
         if take (length (ref_tag k nonce)) c = ref_tag k nonce
         then Some (drop (length (ref_tag k nonce)) c) else None)\<rparr>"

definition ref_random :: random_source where
  "ref_random i = of_nat (7 * i + 1)"

definition ref_key :: bytes where
  "ref_key = generateKey_aes ref_random"

definition ref_nonce :: bytes where
  "ref_nonce = getRandomValues12 ref_random"

text \<open>
  A second random source.
\<close>

definition other_random :: random_source where
  "other_random i = of_nat (7 * i + 2)"

text \<open>
  Two stored contents: what \<open>JSON.stringify\<close> makes of the envelope that
  \<open>encryptMessage\<close> returns on the reference platform for the plaintext \<open>hello\<close> and
  the recipient record with the one identity \<open>alice\<close> and key 1, and the same for the
  one identity \<open>bob\<close> and key 2. The reference parser agrees with \<open>JSON.parse\<close> on
  these two contents and on every string that is not JSON; it is applied to no other.
\<close>

definition stored_for_alice :: jsstring where
  \<open>stored_for_alice = js ''{"encryptedContent":"AeFoZWxsbw==","encryptedKeys":{"alice":"ATUBCA8WHSQrMjlAR05VXGNqcXh/ho2Um6KpsLe+xczT2g=="},"iv":"4ejv9v0ECxIZICcu"}''\<close>

definition stored_for_bob :: jsstring where
  \<open>stored_for_bob = js ''{"encryptedContent":"AeFoZWxsbw==","encryptedKeys":{"bob":"AjUBCA8WHSQrMjlAR05VXGNqcXh/ho2Um6KpsLe+xczT2g=="},"iv":"4ejv9v0ECxIZICcu"}''\<close>

definition envelope_for_alice :: envelope where
  "envelope_for_alice =
     \<lparr>encryptedContent = js ''AeFoZWxsbw=='',
      encryptedKeys = [(js ''alice'', js ''ATUBCA8WHSQrMjlAR05VXGNqcXh/ho2Um6KpsLe+xczT2g=='')],
      iv = js ''4ejv9v0ECxIZICcu''\<rparr>"

definition envelope_for_bob :: envelope where
  "envelope_for_bob =
     \<lparr>encryptedContent = js ''AeFoZWxsbw=='',
      encryptedKeys = [(js ''bob'', js ''AjUBCA8WHSQrMjlAR05VXGNqcXh/ho2Um6KpsLe+xczT2g=='')],
      iv = js ''4ejv9v0ECxIZICcu''\<rparr>"

definition ref_JSON_parse :: "jsstring \<Rightarrow> js_error + parsed_content" where
  "ref_JSON_parse s =
     (if s = stored_for_alice then Inr (parsed_envelope envelope_for_alice)
      else if s = stored_for_bob then Inr (parsed_envelope envelope_for_bob)
      else Inl SyntaxError)"

definition stored_batch :: "message list" where
  "stored_batch =
     [\<lparr>content = stored_for_alice, sender_id = js ''bob''\<rparr>,
      \<lparr>content = js ''not json'', sender_id = js ''bob''\<rparr>,
      \<lparr>content = stored_for_bob, sender_id = js ''alice''\<rparr>,
      \<lparr>content = stored_for_alice, sender_id = js ''alice''\<rparr>]"

section \<open>Properties of the identity generator\<close>

lemma adjectives_lower: "list_all lower_word adjectives"
  by (simp add: adjectives_def lower_word_def js_def)

lemma nouns_lower: "list_all lower_word nouns"
  by (simp add: nouns_def lower_word_def js_def)

lemma upper_unit_letter:
  assumes "97 \<le> c" "c \<le> 122"
  shows "is_letter (upper_unit c)"
proof -
  have "65 \<le> c - 32" "c - 32 \<le> 90"
    using assms by unat_arith+
  then show ?thesis using assms by (simp add: upper_unit_def is_letter_def)
qed

lemma capitalize_lower:
  assumes "lower_word w"
  shows "length (capitalize w) = length w"
    and "\<exists>c cs. capitalize w = c # cs \<and> is_letter c \<and> list_all is_letter cs"
proof -
  from assms obtain c cs where w: "w = c # cs"
    by (cases w) (auto simp: lower_word_def)
  with assms have c: "97 \<le> c" "c \<le> 122" and cs: "list_all (\<lambda>c. 97 \<le> c \<and> c \<le> 122) cs"
    by (auto simp: lower_word_def)
  have eq: "capitalize w = upper_unit c # cs"
    by (simp add: capitalize_def w toUpperCase_def charAt0_def slice_from1_def)
  show "length (capitalize w) = length w" unfolding eq unfolding w by simp
  have "list_all is_letter cs"
    using cs by (induction cs) (auto simp: is_letter_def)
  with upper_unit_letter [OF c] eq
  show "\<exists>c cs. capitalize w = c # cs \<and> is_letter c \<and> list_all is_letter cs" by blast
qed

lemma digit_unit_digit: "d < 10 \<Longrightarrow> is_digit (digit_unit d)"
proof -
  assume "d < 10"
  then have "unat (of_nat (48 + d) :: 16 word) = 48 + d"
    by (simp only: unat_of_nat) simp
  with \<open>d < 10\<close> show ?thesis
    by (simp add: is_digit_def digit_unit_def word_le_nat_alt del: of_nat_add)
qed

lemma number_to_string_digits: "list_all is_digit (number_to_string n)"
proof (induction n rule: number_to_string.induct)
  case (1 n)
  show ?case
  proof (cases "n < 10")
    case True
    then show ?thesis by (simp add: number_to_string.simps [of n] digit_unit_digit)
  next
    case False
    with "1" show ?thesis by (simp add: number_to_string.simps [of n] digit_unit_digit)
  qed
qed

lemma number_to_string_length:
  assumes "n < 1000"
  shows "1 \<le> length (number_to_string n) \<and> length (number_to_string n) \<le> 3"
proof -
  have small: "length (number_to_string k) = 1" if "k < 10" for k
    using that by (simp add: number_to_string.simps [of k])
  have mid: "length (number_to_string k) \<le> 2" if "k < 100" for k
    using that small [of "k div 10"] by (simp add: number_to_string.simps [of k])
  show ?thesis
    using assms mid [of "n div 10"] by (simp add: number_to_string.simps [of n])
qed

text \<open>
  Claim C10. Whatever three values the random source yields, the username that
  \<open>generateUsername\<close> builds is accepted by \<open>validateUsername\<close>: it starts with a letter,
  every later code unit is a letter or a digit, and its length is between 3 and 30.
\<close>

theorem generateUsername_valid:
  "validateUsername (generateUsername r1 r2 r3) = \<lparr>valid = True, error = None\<rparr>
   \<and> (\<exists>c cs. generateUsername r1 r2 r3 = c # cs \<and> is_letter c
         \<and> list_all (\<lambda>d. is_letter d \<or> is_digit d) cs)
   \<and> 3 \<le> length (generateUsername r1 r2 r3) \<and> length (generateUsername r1 r2 r3) \<le> 30"
proof -
  define a where "a = adjectives ! getSecureRandomInt (length adjectives) r1"
  define n where "n = nouns ! getSecureRandomInt (length nouns) r2"
  define k where "k = getSecureRandomInt 1000 r3"
  have "getSecureRandomInt (length adjectives) r1 < length adjectives"
    by (simp add: getSecureRandomInt_def adjectives_def)
  then have a: "lower_word a"
    using adjectives_lower by (simp add: a_def list_all_length)
  have "getSecureRandomInt (length nouns) r2 < length nouns"
    by (simp add: getSecureRandomInt_def nouns_def)
  then have n: "lower_word n"
    using nouns_lower by (simp add: n_def list_all_length)
  have k: "k < 1000" by (simp add: k_def getSecureRandomInt_def)
  have u: "generateUsername r1 r2 r3 = capitalize a @ capitalize n @ number_to_string k"
    by (simp add: generateUsername_def Let_def capitalize_def a_def n_def k_def)
  from capitalize_lower(2) [OF a] obtain c cs
    where ca: "capitalize a = c # cs" "is_letter c" "list_all is_letter cs" by blast
  from capitalize_lower(2) [OF n] obtain d ds
    where cn: "capitalize n = d # ds" "is_letter d" "list_all is_letter ds" by blast
  let ?rest = "cs @ d # ds @ number_to_string k"
  have shape: "generateUsername r1 r2 r3 = c # ?rest" by (simp add: u ca cn)
  have rest: "list_all (\<lambda>d. is_letter d \<or> is_digit d) ?rest"
    using ca cn number_to_string_digits [of k] by (auto simp: list_all_iff)
  have len: "length (generateUsername r1 r2 r3) = length a + length n + length (number_to_string k)"
    using capitalize_lower(1) [OF a] capitalize_lower(1) [OF n] by (simp add: u)
  have bounds: "3 \<le> length (generateUsername r1 r2 r3)" "length (generateUsername r1 r2 r3) \<le> 30"
    using a n number_to_string_length [OF k] by (simp_all add: len lower_word_def)
  have pat: "username_pattern (generateUsername r1 r2 r3)"
    using rest ca(2) by (auto simp: shape username_pattern_def list_all_iff)
  have "validateUsername (generateUsername r1 r2 r3) = \<lparr>valid = True, error = None\<rparr>"
    using bounds pat by (auto simp: validateUsername_def)
  with shape rest ca(2) bounds show ?thesis by blast
qed




section \<open>Properties of the base64 helpers\<close>

lemma b64_index_char_all: "list_all (\<lambda>n. b64_index (b64_char n) = Some n) [0..<64]"
  by code_simp

lemma b64_index_char: "n < 64 \<Longrightarrow> b64_index (b64_char n) = Some n"
  using b64_index_char_all by (simp add: list_all_iff)

lemma b64_index_other:
  "b64_index 61 = None" "b64_index 9 = None" "b64_index 10 = None" "b64_index 12 = None"
  "b64_index 13 = None" "b64_index 32 = None"
  by (simp_all add: b64_index_def b64_alphabet_def js_def)

lemma b64_char_plain:
  assumes "n < 64"
  shows "\<not> ascii_whitespace (b64_char n)" and "b64_char n \<noteq> 61"
  using b64_index_char [OF assms] b64_index_other
  by (auto simp: ascii_whitespace_def)

lemma pad_le2: "(3 - n mod 3) mod 3 \<le> (2::nat)"
proof -
  have "(3 - n mod 3) mod 3 < 3" by simp
  then show ?thesis by linarith
qed


lemma unat_byte_bound: "unat (a :: 8 word) < 256"
  using unsigned_less [of a, where ?'a = nat] by simp

lemma sextets_bound: "s \<in> set (sextets bs) \<Longrightarrow> s < 64"
proof (induction bs arbitrary: s rule: sextets.induct)
  case (1 a b c rest)
  have "unat a < 256" "unat b < 256" "unat c < 256" by (rule unat_byte_bound)+
  with "1" show ?case by auto
next
  case (2 a b)
  have "unat a < 256" "unat b < 256" by (rule unat_byte_bound)+
  with "2" show ?case by auto
next
  case (3 a)
  have "unat a < 256" by (rule unat_byte_bound)
  with "3" show ?case by auto
qed simp

lemma length_sextets_not1: "length (sextets bs) mod 4 \<noteq> 1"
  by (induction bs rule: sextets.induct) simp_all

lemma length_b64_padded: "(length (sextets bs) + (3 - length bs mod 3) mod 3) mod 4 = 0"
  by (induction bs rule: sextets.induct) simp_all

lemma divmod_pack:
  fixes q m r :: nat
  assumes "r < m"
  shows "(q * m + r) div m = q" and "(q * m + r) mod m = r"
  using assms by simp_all

lemma split4: "4 * (x div 4) + x mod 4 = (x::nat)"
  and split16: "16 * (x div 16) + x mod 16 = (x::nat)"
  and split64: "64 * (x div 64) + x mod 64 = (x::nat)"
  by simp_all

lemma pack3:
  fixes a b c :: nat
  shows "((a div 4 * 64 + ((a mod 4) * 16 + b div 16)) * 64 + ((b mod 16) * 4 + c div 64)) * 64
           + c mod 64 = (a * 256 + b) * 256 + c"
proof -
  define a1 a0 b1 b0 c1 c0
    where "a1 = a div 4" and "a0 = a mod 4" and "b1 = b div 16" and "b0 = b mod 16"
      and "c1 = c div 64" and "c0 = c mod 64"
  have "((a1 * 64 + (a0 * 16 + b1)) * 64 + (b0 * 4 + c1)) * 64 + c0
          = ((4 * a1 + a0) * 256 + (16 * b1 + b0)) * 256 + (64 * c1 + c0)"
    by simp
  then show ?thesis
    unfolding a1_def a0_def b1_def b0_def c1_def c0_def
    by (simp only: split4 split16 split64)
qed

lemma pack2:
  fixes a b :: nat
  shows "((a div 4 * 64 + ((a mod 4) * 16 + b div 16)) * 64 + (b mod 16) * 4) div 4 = a * 256 + b"
proof -
  define a1 a0 b1 b0
    where "a1 = a div 4" and "a0 = a mod 4" and "b1 = b div 16" and "b0 = b mod 16"
  have "((a1 * 64 + (a0 * 16 + b1)) * 64 + b0 * 4) = ((4 * a1 + a0) * 256 + (16 * b1 + b0)) * 4"
    by simp
  then have "((a1 * 64 + (a0 * 16 + b1)) * 64 + b0 * 4) div 4 = (4 * a1 + a0) * 256 + (16 * b1 + b0)"
    by simp
  then show ?thesis
    unfolding a1_def a0_def b1_def b0_def by (simp only: split4 split16)
qed

lemma pack1:
  fixes a :: nat
  shows "(a div 4 * 64 + (a mod 4) * 16) div 16 = a"
proof -
  define a1 a0 where "a1 = a div 4" and "a0 = a mod 4"
  have "a1 * 64 + a0 * 16 = (4 * a1 + a0) * 16" by simp
  then have "(a1 * 64 + a0 * 16) div 16 = 4 * a1 + a0" by simp
  then show ?thesis
    unfolding a1_def a0_def by (simp only: split4)
qed

lemma unsextets_sextets: "unsextets (sextets bs) = bs"
proof (induction bs rule: sextets.induct)
  case (1 a b c rest)
  have bnd: "unat a < 256" "unat b < 256" "unat c < 256" by (rule unat_byte_bound)+
  define n where "n = (unat a * 256 + unat b) * 256 + unat c"
  have hi: "n div 256 = unat a * 256 + unat b" and lo: "n mod 256 = unat c"
    unfolding n_def using bnd(3) by (rule divmod_pack)+
  have "n div 65536 = n div 256 div 256" by (simp add: div_mult2_eq)
  also have "\<dots> = unat a" unfolding hi using bnd(2) by (rule divmod_pack)
  finally have top: "n div 65536 = unat a" .
  have mid: "n div 256 mod 256 = unat b" unfolding hi using bnd(2) by (rule divmod_pack)
  have "unsextets (sextets (a # b # c # rest)) = [of_nat (n div 65536), of_nat (n div 256 mod 256), of_nat (n mod 256)] @ unsextets (sextets rest)"
    unfolding sextets.simps append_Cons append_Nil unsextets.simps Let_def pack3 n_def ..
  then show ?case using "1" by (simp add: top mid lo)
next
  case (2 a b)
  have bnd: "unat a < 256" "unat b < 256" by (rule unat_byte_bound)+
  have "(unat a * 256 + unat b) div 256 = unat a" "(unat a * 256 + unat b) mod 256 = unat b"
    using bnd(2) by (rule divmod_pack)+
  moreover have "unsextets (sextets [a, b]) = [of_nat ((unat a * 256 + unat b) div 256), of_nat ((unat a * 256 + unat b) mod 256)]"
    unfolding sextets.simps unsextets.simps Let_def pack2 ..
  ultimately show ?case by simp
next
  case (3 a)
  have "unsextets (sextets [a]) = [of_nat (unat a)]"
    unfolding sextets.simps unsextets.simps pack1 ..
  then show ?case by simp
qed simp



lemma those_b64_index:
  "\<forall>s \<in> set sx. s < 64 \<Longrightarrow> those (map b64_index (map b64_char sx)) = Some sx"
  by (induction sx) (simp_all add: b64_index_char)

lemma strip_padding_encoded:
  assumes "61 \<notin> set xs" and "p \<le> 2" and "(length xs + p) mod 4 = 0"
  shows "strip_padding (xs @ replicate p 61) = xs"
proof -
  have keep: "drop_eq xs = xs"
    using assms(1) by (cases xs rule: rev_cases) (auto simp: drop_eq_def)
  from assms(2) consider "p = 0" | "p = 1" | "p = 2" by linarith
  then show ?thesis
  proof cases
    case 1
    with assms(1) show ?thesis
      by (cases xs rule: rev_cases) (auto simp: strip_padding_def)
  next
    case 2
    with assms(3) keep show ?thesis by (simp add: strip_padding_def)
  next
    case 3
    then have r: "replicate p (61 :: code_unit) = [61, 61]" by (simp add: numeral_2_eq_2)
    have "strip_padding (xs @ [61, 61]) = drop_eq (butlast (xs @ [61, 61]))"
      using assms(3) 3 by (simp add: strip_padding_def)
    also have "butlast (xs @ [61, 61]) = xs @ [61]" by (simp add: butlast_append)
    also have "drop_eq (xs @ [61]) = xs" by (simp add: drop_eq_def)
    finally show ?thesis by (simp add: r)
  qed
qed

lemma atob_b64_encode: "atob (b64_encode bs) = Inr (map ucast bs)"
proof -
  let ?body = "map b64_char (sextets bs)"
  let ?p = "(3 - length bs mod 3) mod 3"
  have plain: "\<forall>c \<in> set ?body. \<not> ascii_whitespace c \<and> c \<noteq> 61"
    using b64_char_plain sextets_bound by auto
  have "\<not> ascii_whitespace 61" by (simp add: ascii_whitespace_def)
  with plain have f: "filter (\<lambda>c. \<not> ascii_whitespace c) (b64_encode bs) = b64_encode bs"
    by (auto simp: b64_encode_def filter_id_conv)
  have "61 \<notin> set ?body" using plain by blast
  moreover have "?p \<le> 2" by (rule pad_le2)
  moreover have "(length ?body + ?p) mod 4 = 0" using length_b64_padded [of bs] by simp
  ultimately have sp: "strip_padding (b64_encode bs) = ?body"
    unfolding b64_encode_def by (rule strip_padding_encoded)
  have len: "length ?body mod 4 \<noteq> 1" using length_sextets_not1 [of bs] by simp
  have idx: "those (map b64_index ?body) = Some (sextets bs)"
    using sextets_bound by (intro those_b64_index) blast
  show ?thesis
    unfolding atob_def f sp Let_def idx using len by (simp add: unsextets_sextets)
qed

lemma ucast_byte_le: "(ucast (b :: 8 word) :: code_unit) \<le> 255"
proof -
  have "unat (ucast b :: code_unit) = unat b"
    by (simp add: unsigned_ucast_eq take_bit_nat_eq_self unat_byte_bound [THEN less_trans])
  then show ?thesis using unat_byte_bound [of b] by (simp add: word_le_nat_alt)
qed

lemma ucast_byte_back: "(ucast (ucast (b :: 8 word) :: code_unit) :: 8 word) = b"
  by (rule ucast_up_ucast_id) (simp add: is_up)

lemma btoa_binary: "btoa (map ucast (bs :: bytes)) = Inr (b64_encode bs)"
proof -
  have "\<not> (\<exists>c \<in> set (map ucast bs :: jsstring). 255 < c)"
    using ucast_byte_le by (auto simp: not_less)
  moreover have "map ucast (map ucast bs :: jsstring) = bs"
    by (simp add: ucast_byte_back comp_def)
  ultimately show ?thesis unfolding btoa_def by simp
qed

lemma append_loop: "foldl (\<lambda>binary b. binary @ [f b]) acc bs = acc @ map f bs"
  by (induction bs arbitrary: acc) simp_all

lemma store_loop:
  "k \<le> length s \<Longrightarrow> length buf = length s \<Longrightarrow>
   foldl (\<lambda>bytes i. bytes[i := g (s ! i)]) buf [0..<k] = map g (take k s) @ drop k buf"
proof (induction k)
  case 0
  then show ?case by simp
next
  case (Suc k)
  then have "foldl (\<lambda>bytes i. bytes[i := g (s ! i)]) buf [0..<Suc k]
      = (map g (take k s) @ drop k buf)[k := g (s ! k)]" by simp
  also have "\<dots> = map g (take k s) @ (drop k buf)[0 := g (s ! k)]"
    using Suc.prems by (simp add: list_update_append)
  also have "(drop k buf)[0 := g (s ! k)] = g (s ! k) # drop (Suc k) buf"
    using Suc.prems by (cases "drop k buf") (auto simp: drop_Suc [symmetric] Cons_nth_drop_Suc [symmetric] dest: sym)
  also have "map g (take k s) @ g (s ! k) # drop (Suc k) buf = map g (take (Suc k) s) @ drop (Suc k) buf"
    using Suc.prems by (simp add: take_Suc_conv_app_nth)
  finally show ?case .
qed

lemma arrayBufferToBase64_eq: "arrayBufferToBase64 b = Inr (b64_encode b)"
  by (simp add: arrayBufferToBase64_def append_loop fromCharCode_def btoa_binary)

lemma base64ToArrayBuffer_eq:
  "base64ToArrayBuffer s = (case atob s of Inl e \<Rightarrow> Inl e | Inr t \<Rightarrow> Inr (map ucast t))"
  by (simp add: base64ToArrayBuffer_def Let_def store_loop split: sum.splits)

lemma base64ToArrayBuffer_b64_encode: "base64ToArrayBuffer (b64_encode b) = Inr b"
  by (simp add: base64ToArrayBuffer_eq atob_b64_encode ucast_byte_back comp_def)

text \<open>
  Claim C9. For every byte buffer \<open>b\<close>, \<open>arrayBufferToBase64\<close> returns a string, and
  \<open>base64ToArrayBuffer\<close> on that string returns exactly \<open>b\<close>.
\<close>

theorem base64_roundtrip:
  "\<exists>s. arrayBufferToBase64 b = Inr s \<and> base64ToArrayBuffer s = Inr b"
proof -
  have "arrayBufferToBase64 b = Inr (b64_encode b)"
    by (rule arrayBufferToBase64_eq)
  moreover have "base64ToArrayBuffer (b64_encode b) = Inr b"
    by (rule base64ToArrayBuffer_b64_encode)
  ultimately show ?thesis by blast
qed

section \<open>Properties of the text encoding\<close>

lemma lead2: "q < 32 \<Longrightarrow> (192 + q) mod 32 = (q::nat)"
  using divmod_pack(2) [of q 32 6] by simp

lemma lead3: "q < 16 \<Longrightarrow> (224 + q) mod 16 = (q::nat)"
  using divmod_pack(2) [of q 16 14] by simp

lemma lead4: "q < 8 \<Longrightarrow> (240 + q) mod 8 = (q::nat)"
  using divmod_pack(2) [of q 8 30] by simp

lemma trail: "r < 64 \<Longrightarrow> (128 + r) mod 64 = (r::nat)"
  using divmod_pack(2) [of r 64 2] by simp

lemma decode2:
  assumes "2 \<le> q" "q < 32" "r < 64"
  shows "utf8_decoder 0 0 0 128 191 ((192 + q) # (128 + r) # rest)
           = (q * 64 + r) # utf8_decoder 0 0 0 128 191 rest"
  using assms by (simp add: lead2 trail)

lemma decode3:
  assumes "q2 < 16" "q1 < 64" "q0 < 64" "q2 = 0 \<longrightarrow> 32 \<le> q1" "q2 = 13 \<longrightarrow> q1 < 32"
  shows "utf8_decoder 0 0 0 128 191 ((224 + q2) # (128 + q1) # (128 + q0) # rest)
           = ((q2 * 64 + q1) * 64 + q0) # utf8_decoder 0 0 0 128 191 rest"
  using assms by (auto simp: lead3 trail)

lemma decode4:
  assumes "q3 < 5" "q2 < 64" "q1 < 64" "q0 < 64" "q3 = 0 \<longrightarrow> 16 \<le> q2" "q3 = 4 \<longrightarrow> q2 < 16"
  shows "utf8_decoder 0 0 0 128 191 ((240 + q3) # (128 + q2) # (128 + q1) # (128 + q0) # rest)
           = (((q3 * 64 + q2) * 64 + q1) * 64 + q0) # utf8_decoder 0 0 0 128 191 rest"
  using assms by (auto simp: lead4 trail)


lemma div_4096: "cp div 4096 = cp div 64 div (64::nat)"
  by (simp add: div_mult2_eq)

lemma div_262144: "cp div 262144 = cp div 64 div 64 div (64::nat)"
  by (simp add: div_mult2_eq)

lemma utf8_decoder_bytes:
  assumes "scalar cp"
  shows "utf8_decoder 0 0 0 128 191 (utf8_bytes cp @ rest) = cp # utf8_decoder 0 0 0 128 191 rest"
proof -
  consider "cp < 128" | "128 \<le> cp" "cp < 2048" | "2048 \<le> cp" "cp < 65536"
    | "65536 \<le> cp" "cp < 1114112"
    using assms unfolding scalar_def by linarith
  then show ?thesis
  proof cases
    case 1
    then show ?thesis by (simp add: utf8_bytes_def)
  next
    case 2
    then have "2 \<le> cp div 64" "cp div 64 < 32" "cp mod 64 < 64"
      by (simp_all add: less_eq_div_iff_mult_less_eq div_less_iff_less_mult)
    from decode2 [OF this, of rest] 2 show ?thesis
      by (simp add: utf8_bytes_def)
  next
    case 3
    define m where "m = cp div 64"
    have "864 \<le> m \<longleftrightarrow> 55296 \<le> cp" "m < 896 \<longleftrightarrow> cp < 57344"
      unfolding m_def by (simp_all add: less_eq_div_iff_mult_less_eq div_less_iff_less_mult)
    with assms have sur: "\<not> (864 \<le> m \<and> m \<le> 895)"
      unfolding scalar_def by linarith
    have "32 \<le> m" "m < 1024"
      using 3 unfolding m_def
      by (simp_all add: less_eq_div_iff_mult_less_eq div_less_iff_less_mult)
    note m = this sur
    have "m = m div 64 * 64 + m mod 64" by simp
    with m have c: "m div 64 < 16" "m div 64 = 0 \<longrightarrow> 32 \<le> m mod 64" "m div 64 = 13 \<longrightarrow> m mod 64 < 32"
      by linarith+
    have "utf8_decoder 0 0 0 128 191 ((224 + m div 64) # (128 + m mod 64) # (128 + cp mod 64) # rest)
           = ((m div 64 * 64 + m mod 64) * 64 + cp mod 64) # utf8_decoder 0 0 0 128 191 rest"
      using c by (intro decode3) simp_all
    then show ?thesis using 3 by (simp add: utf8_bytes_def div_4096 m_def)
  next
    case 4
    define m where "m = cp div 64 div 64"
    have m: "16 \<le> m" "m < 272"
      using 4 unfolding m_def
      by (simp_all add: less_eq_div_iff_mult_less_eq div_less_iff_less_mult)
    have "m = m div 64 * 64 + m mod 64" by simp
    with m have c: "m div 64 < 5" "m div 64 = 0 \<longrightarrow> 16 \<le> m mod 64" "m div 64 = 4 \<longrightarrow> m mod 64 < 16"
      by linarith+
    have "utf8_decoder 0 0 0 128 191
            ((240 + m div 64) # (128 + m mod 64) # (128 + cp div 64 mod 64) # (128 + cp mod 64) # rest)
           = (((m div 64 * 64 + m mod 64) * 64 + cp div 64 mod 64) * 64 + cp mod 64)
             # utf8_decoder 0 0 0 128 191 rest"
      using c by (intro decode4) simp_all
    then show ?thesis using 4 by (simp add: utf8_bytes_def div_4096 div_262144 m_def)
  qed
qed


lemma unat_unit_bound: "unat (c :: code_unit) < 65536"
  using unsigned_less [of c, where ?'a = nat] by simp

lemma surrogate_nat:
  "surrogate c \<longleftrightarrow> 55296 \<le> unat c \<and> unat c \<le> 57343"
  "high_surrogate c \<longleftrightarrow> 55296 \<le> unat c \<and> unat c \<le> 56319"
  "low_surrogate c \<longleftrightarrow> 56320 \<le> unat c \<and> unat c \<le> 57343"
  by (simp_all add: surrogate_def high_surrogate_def low_surrogate_def word_le_nat_alt)

lemma scalar_replacement: "scalar 65533"
  by (simp add: scalar_def)

lemma scalar_unit: "\<not> surrogate c \<Longrightarrow> scalar (unat c)"
  using unat_unit_bound [of c] by (simp add: scalar_def surrogate_nat)

lemma scalar_pair:
  assumes "high_surrogate c" "low_surrogate d"
  shows "scalar (65536 + (unat c - 55296) * 1024 + (unat d - 56320))"
proof -
  define h l where "h = unat c - 55296" and "l = unat d - 56320"
  from assms have "h < 1024" "l < 1024"
    unfolding h_def l_def surrogate_nat by linarith+
  then have "65536 + h * 1024 + l < 1114112" "57343 < 65536 + h * 1024 + l" by linarith+
  then show ?thesis
    unfolding h_def l_def scalar_def by simp
qed

lemma scalar_values_scalar: "cp \<in> set (scalar_values s) \<Longrightarrow> scalar cp"
proof (induction s arbitrary: cp rule: scalar_values.induct)
  case 1
  then show ?case by simp
next
  case (2 c)
  then show ?case
    by (cases "surrogate c") (simp_all add: scalar_replacement scalar_unit)
next
  case (3 c d cs)
  show ?case
  proof (cases "high_surrogate c \<and> low_surrogate d")
    case True
    with "3.prems"
    have "cp = 65536 + (unat c - 55296) * 1024 + (unat d - 56320) \<or> cp \<in> set (scalar_values cs)"
      by simp
    then show ?thesis
      using scalar_pair [of c d] True "3.IH"(1) by blast
  next
    case False
    show ?thesis
    proof (cases "surrogate c")
      case True
      with "3.prems" False have "cp = 65533 \<or> cp \<in> set (scalar_values (d # cs))" by simp
      then show ?thesis
        using scalar_replacement False True "3.IH"(2) by blast
    next
      case notsur: False
      with "3.prems" False have "cp = unat c \<or> cp \<in> set (scalar_values (d # cs))" by simp
      then show ?thesis
        using scalar_unit [OF notsur] False notsur "3.IH"(3) by blast
    qed
  qed
qed

lemma utf8_bytes_bound: "scalar cp \<Longrightarrow> b \<in> set (utf8_bytes cp) \<Longrightarrow> b < 256"
proof -
  assume "scalar cp" and b: "b \<in> set (utf8_bytes cp)"
  then have "cp < 1114112" by (simp add: scalar_def)
  then have "cp div 262144 < 5" by (simp add: div_less_iff_less_mult)
  moreover have "cp < 65536 \<Longrightarrow> cp div 4096 < 16" by (simp add: div_less_iff_less_mult)
  moreover have "cp < 2048 \<Longrightarrow> cp div 64 < 32" by (simp add: div_less_iff_less_mult)
  moreover have "cp mod 64 < 64" "cp div 64 mod 64 < 64" "cp div 4096 mod 64 < 64" by simp_all
  ultimately show ?thesis
    using b by (auto simp: utf8_bytes_def split: if_splits)
qed

lemma unat_of_nat_byte: "b < 256 \<Longrightarrow> unat (of_nat b :: 8 word) = b"
  by (simp add: unat_of_nat)

lemma utf8_decoder_concat:
  "\<forall>cp \<in> set cps. scalar cp \<Longrightarrow>
   utf8_decoder 0 0 0 128 191 (concat (map utf8_bytes cps)) = cps"
  by (induction cps) (simp_all add: utf8_decoder_bytes)

lemma utf8_roundtrip:
  "utf8_decoder 0 0 0 128 191 (map unat (TextEncoder_encode s)) = scalar_values s"
proof -
  have "\<forall>b \<in> set (concat (map utf8_bytes (scalar_values s))). b < 256"
    using utf8_bytes_bound scalar_values_scalar by auto
  then have "map (\<lambda>b. unat (of_nat b :: 8 word)) (concat (map utf8_bytes (scalar_values s)))
               = concat (map utf8_bytes (scalar_values s))"
    by (intro map_idI) (auto simp: unat_of_nat_byte)
  then have "map unat (TextEncoder_encode s) = concat (map utf8_bytes (scalar_values s))"
    unfolding TextEncoder_encode_def by (simp add: comp_def)
  then show ?thesis
    using scalar_values_scalar by (simp add: utf8_decoder_concat)
qed

lemma text_codec:
  "TextDecoder_decode (TextEncoder_encode s) = concat (map code_units (strip_bom (scalar_values s)))"
  by (simp add: TextDecoder_decode_def utf8_roundtrip)

lemma code_units_pair:
  assumes "high_surrogate c" "low_surrogate d"
  shows "code_units (65536 + (unat c - 55296) * 1024 + (unat d - 56320)) = [c, d]"
proof -
  define h l where "h = unat c - 55296" and "l = unat d - 56320"
  from assms have c: "unat c = 55296 + h" and d: "unat d = 56320 + l" and l: "l < 1024"
    unfolding h_def l_def surrogate_nat by linarith+
  have "(h * 1024 + l) div 1024 = h" "(h * 1024 + l) mod 1024 = l"
    using l by (rule divmod_pack)+
  then have "code_units (65536 + h * 1024 + l) = [of_nat (55296 + h), of_nat (56320 + l)]"
    by (simp add: code_units_def add.assoc)
  then show ?thesis
    unfolding h_def [symmetric] l_def [symmetric] c [symmetric] d [symmetric] by simp
qed

lemma code_units_single: "code_units (unat (c :: code_unit)) = [c]"
  using unat_unit_bound [of c] by (simp add: code_units_def)

lemma code_units_scalar_values:
  "well_formed s \<Longrightarrow> concat (map code_units (scalar_values s)) = s"
  by (induction s rule: scalar_values.induct)
     (auto simp: code_units_pair code_units_single split: if_splits)

lemma bom_unit: "unat (c :: code_unit) = 65279 \<longleftrightarrow> c = 0xFEFF"
  by (simp add: word_unat_eq_iff)

lemma strip_bom_scalar_values:
  assumes "s = [] \<or> hd s \<noteq> 0xFEFF"
  shows "strip_bom (scalar_values s) = scalar_values s"
proof (cases s)
  case Nil
  then show ?thesis by (simp add: strip_bom_def)
next
  case (Cons c t)
  with assms have c: "unat c \<noteq> 65279" by (simp add: bom_unit)
  show ?thesis
  proof (cases t)
    case Nil
    with Cons c show ?thesis by (simp add: strip_bom_def)
  next
    case (Cons d cs)
    with \<open>s = c # t\<close> c show ?thesis by (simp add: strip_bom_def)
  qed
qed

lemma text_roundtrip:
  assumes "well_formed s" and "s = [] \<or> hd s \<noteq> 0xFEFF"
  shows "TextDecoder_decode (TextEncoder_encode s) = s"
  using assms by (simp add: text_codec strip_bom_scalar_values code_units_scalar_values)

section \<open>Properties of encryption and decryption\<close>

lemma b64_encode_inject:
  assumes "b64_encode a = b64_encode b"
  shows "a = b"
proof -
  have "base64ToArrayBuffer (b64_encode a) = base64ToArrayBuffer (b64_encode b)"
    by (simp only: assms)
  then have "(Inr a :: js_error + bytes) = Inr b"
    by (simp only: base64ToArrayBuffer_b64_encode)
  then show ?thesis by simp
qed

lemma sextets_nonempty: "b \<noteq> [] \<Longrightarrow> sextets b \<noteq> []"
  by (cases b rule: sextets.cases) simp_all

lemma b64_encode_nonempty: "b \<noteq> [] \<Longrightarrow> b64_encode b \<noteq> []"
  by (simp add: b64_encode_def sextets_nonempty)

lemma proto_name: "js ''__proto__'' \<in> set object_prototype_names"
  by (simp add: object_prototype_names_def)

lemma keys_update: "fst ` set (AList.update k v al) = insert k (fst ` set al)"
proof -
  have "set (map fst (AList.update k v al)) = insert k (set (map fst al))"
    by (auto simp: update_keys)
  then show ?thesis by simp
qed

lemma keys_set_property:
  "fst ` set (set_property obj k s) =
     (if k = js ''__proto__'' \<and> k \<notin> fst ` set obj then fst ` set obj
      else insert k (fst ` set obj))"
  unfolding set_property_def by (simp only: keys_update if_distrib [of "\<lambda>l. fst ` set l"])

lemma map_of_set_property:
  "k \<noteq> js ''__proto__'' \<Longrightarrow> map_of (set_property obj k s) = (map_of obj)(k \<mapsto> s)"
  by (simp add: set_property_def update_conv')

lemma map_of_set_property_other:
  "k' \<noteq> k \<Longrightarrow> map_of (set_property obj k s) k' = map_of obj k'"
  by (simp add: set_property_def update_conv')

lemma distinct_set_property:
  "distinct (map fst obj) \<Longrightarrow> distinct (map fst (set_property obj k s))"
  by (simp add: set_property_def distinct_update)

lemma wrap_keys_step:
  "wrap_keys cr rnd raw i ((userId, publicKey) # entries) acc =
     (case rsa_oaep_encrypt cr publicKey (oaep_seed rnd i) raw of
        None \<Rightarrow> Inl (DOMException OperationError)
      | Some c \<Rightarrow> wrap_keys cr rnd raw (Suc i) entries (set_property acc userId (b64_encode c)))"
  by (simp add: subtle_result_def arrayBufferToBase64_eq split: option.split)

lemma wrap_keys_keys:
  "wrap_keys cr rnd raw i entries acc = Inr out \<Longrightarrow> js ''__proto__'' \<notin> fst ` set acc \<Longrightarrow>
   fst ` set out = fst ` set acc \<union> (fst ` set entries - {js ''__proto__''})"
proof (induction entries arbitrary: i acc)
  case Nil
  then show ?case by simp
next
  case (Cons entry entries)
  obtain userId publicKey where entry: "entry = (userId, publicKey)" by (cases entry)
  from Cons.prems(1) obtain c
    where rest: "wrap_keys cr rnd raw (Suc i) entries (set_property acc userId (b64_encode c)) = Inr out"
    unfolding entry wrap_keys_step by (auto split: option.splits)
  have keys: "fst ` set (set_property acc userId (b64_encode c)) =
      (if userId = js ''__proto__'' then fst ` set acc else insert userId (fst ` set acc))"
    using Cons.prems(2) by (simp add: keys_set_property)
  then have "js ''__proto__'' \<notin> fst ` set (set_property acc userId (b64_encode c))"
    using Cons.prems(2) by (simp split: if_splits)
  from Cons.IH [OF rest this] keys show ?case
    by (auto simp: entry split: if_splits)
qed

lemma wrap_keys_distinct:
  "wrap_keys cr rnd raw i entries acc = Inr out \<Longrightarrow> distinct (map fst acc) \<Longrightarrow>
   distinct (map fst out)"
proof (induction entries arbitrary: i acc)
  case Nil
  then show ?case by simp
next
  case (Cons entry entries)
  obtain userId publicKey where entry: "entry = (userId, publicKey)" by (cases entry)
  from Cons.prems(1) obtain c
    where "wrap_keys cr rnd raw (Suc i) entries (set_property acc userId (b64_encode c)) = Inr out"
    unfolding entry wrap_keys_step by (auto split: option.splits)
  from Cons.IH [OF this] Cons.prems(2) show ?case
    by (simp add: distinct_set_property)
qed

lemma wrap_keys_other:
  "wrap_keys cr rnd raw i entries acc = Inr out \<Longrightarrow> userId \<notin> fst ` set entries \<Longrightarrow>
   map_of out userId = map_of acc userId"
proof (induction entries arbitrary: i acc)
  case Nil
  then show ?case by simp
next
  case (Cons entry entries)
  obtain u publicKey where entry: "entry = (u, publicKey)" by (cases entry)
  from Cons.prems(1) obtain c
    where "wrap_keys cr rnd raw (Suc i) entries (set_property acc u (b64_encode c)) = Inr out"
    unfolding entry wrap_keys_step by (auto split: option.splits)
  from Cons.IH [OF this] Cons.prems(2) show ?case
    by (simp add: entry map_of_set_property_other)
qed

lemma wrap_keys_entry:
  "wrap_keys cr rnd raw i entries acc = Inr out \<Longrightarrow> distinct (map fst entries) \<Longrightarrow>
   j < length entries \<Longrightarrow> fst (entries ! j) \<noteq> js ''__proto__'' \<Longrightarrow>
   \<exists>c. rsa_oaep_encrypt cr (snd (entries ! j)) (oaep_seed rnd (i + j)) raw = Some c
       \<and> map_of out (fst (entries ! j)) = Some (b64_encode c)"
proof (induction entries arbitrary: i acc j)
  case Nil
  then show ?case by simp
next
  case (Cons entry entries)
  obtain u publicKey where entry: "entry = (u, publicKey)" by (cases entry)
  from Cons.prems(1) obtain c
    where c: "rsa_oaep_encrypt cr publicKey (oaep_seed rnd i) raw = Some c"
      and rest: "wrap_keys cr rnd raw (Suc i) entries (set_property acc u (b64_encode c)) = Inr out"
    unfolding entry wrap_keys_step by (auto split: option.splits)
  show ?case
  proof (cases j)
    case 0
    from Cons.prems(2) have "u \<notin> fst ` set entries" by (simp add: entry)
    moreover from Cons.prems(4) 0 have "u \<noteq> js ''__proto__''" by (simp add: entry)
    ultimately show ?thesis
      using wrap_keys_other [OF rest] c by (simp add: 0 entry map_of_set_property)
  next
    case (Suc k)
    with Cons.prems have "distinct (map fst entries)" "k < length entries"
      "fst (entries ! k) \<noteq> js ''__proto__''" by simp_all
    from Cons.IH [OF rest this] show ?thesis by (simp add: Suc)
  qed
qed

lemma wrap_keys_returns:
  "wraps_succeed cr \<Longrightarrow> length raw = 32 \<Longrightarrow> \<exists>out. wrap_keys cr rnd raw i entries acc = Inr out"
proof (induction entries arbitrary: i acc)
  case Nil
  then show ?case by simp
next
  case (Cons entry entries)
  obtain u publicKey where entry: "entry = (u, publicKey)" by (cases entry)
  from Cons.prems obtain c where "rsa_oaep_encrypt cr publicKey (oaep_seed rnd i) raw = Some c"
    unfolding wraps_succeed_def by blast
  with Cons.IH [OF Cons.prems] show ?case
    unfolding entry wrap_keys_step by simp
qed

lemma length_generateKey_aes: "length (generateKey_aes rnd) = 32"
  by (simp add: generateKey_aes_def)

lemma length_getRandomValues12: "length (getRandomValues12 rnd) = 12"
  by (simp add: getRandomValues12_def)

lemma encryptMessage_eq:
  "encryptMessage cr rnd text recipientPublicKeys =
     (case aes_gcm_encrypt cr (generateKey_aes rnd) (getRandomValues12 rnd) (TextEncoder_encode text) of
        None \<Rightarrow> Inl (DOMException OperationError)
      | Some c \<Rightarrow>
          (case wrap_keys cr rnd (generateKey_aes rnd) 0 recipientPublicKeys [] of
             Inl e \<Rightarrow> Inl e
           | Inr wrapped \<Rightarrow>
               Inr \<lparr>encryptedContent = b64_encode c, encryptedKeys = wrapped,
                    iv = b64_encode (getRandomValues12 rnd)\<rparr>))"
  by (simp add: encryptMessage_def Let_def subtle_result_def arrayBufferToBase64_eq
      split: option.split sum.split)

lemma encryptMessage_returns:
  assumes "wraps_succeed cr" and "cipher_succeeds cr"
  shows "\<exists>env. encryptMessage cr rnd text recipientPublicKeys = Inr env"
proof -
  from assms(2) obtain c
    where "aes_gcm_encrypt cr (generateKey_aes rnd) (getRandomValues12 rnd) (TextEncoder_encode text) = Some c"
    unfolding cipher_succeeds_def
    using length_generateKey_aes length_getRandomValues12 by blast
  moreover from wrap_keys_returns [OF assms(1) length_generateKey_aes]
  obtain out where "wrap_keys cr rnd (generateKey_aes rnd) 0 recipientPublicKeys [] = Inr out"
    by blast
  ultimately show ?thesis by (simp add: encryptMessage_eq)
qed

lemma encryptMessage_no_recipients:
  "encryptMessage cr rnd text [] = Inr env \<Longrightarrow> encryptedKeys env = []"
  by (auto simp: encryptMessage_eq split: option.splits)

lemma select_key_absent:
  "userId \<notin> fst ` set m \<Longrightarrow> userId \<notin> set object_prototype_names \<Longrightarrow>
   select_key (KeyMap m) userId = Inl (no_key_error userId)"
  by (simp add: select_key_def get_property_def falsy_def map_of_eq_None_iff [THEN iffD2])

lemma select_key_inherited:
  "userId \<notin> fst ` set m \<Longrightarrow> userId \<in> set object_prototype_names \<Longrightarrow>
   select_key (KeyMap m) userId = Inr (inherited_text userId)"
  by (simp add: select_key_def get_property_def falsy_def to_DOMString_def
      map_of_eq_None_iff [THEN iffD2])

lemma those_map_None: "x \<in> set xs \<Longrightarrow> f x = None \<Longrightarrow> those (map f xs) = None"
  by (induction xs) (auto split: option.splits)

lemma drop_eq_keeps: "c \<in> set s \<Longrightarrow> c \<noteq> 61 \<Longrightarrow> c \<in> set (drop_eq s)"
  by (cases s rule: rev_cases) (auto simp: drop_eq_def)

lemma strip_padding_keeps: "c \<in> set s \<Longrightarrow> c \<noteq> 61 \<Longrightarrow> c \<in> set (strip_padding s)"
  by (cases s rule: rev_cases) (auto simp: strip_padding_def intro: drop_eq_keeps)

lemma atob_rejects:
  assumes "c \<in> set s" and "b64_index c = None" and "\<not> ascii_whitespace c" and "c \<noteq> 61"
  shows "atob s = Inl (DOMException InvalidCharacterError)"
proof -
  let ?d = "strip_padding (filter (\<lambda>c. \<not> ascii_whitespace c) s)"
  from assms(1,3,4) have "c \<in> set ?d" by (intro strip_padding_keeps) simp_all
  then have "those (map b64_index ?d) = None" using assms(2) by (rule those_map_None)
  then show ?thesis by (simp add: atob_def Let_def)
qed

lemma bracket_rejected:
  "b64_index 0x5B = None" "\<not> ascii_whitespace 0x5B" "(0x5B :: code_unit) \<noteq> 61"
  by (simp_all add: b64_index_def b64_alphabet_def js_def ascii_whitespace_def)

lemma bracket_inherited: "0x5B \<in> set (inherited_text k)"
  by (simp add: inherited_text_def js_def)

lemma atob_inherited: "atob (inherited_text k) = Inl (DOMException InvalidCharacterError)"
  by (rule atob_rejects [OF bracket_inherited bracket_rejected])

lemma decryptMessage_inherited:
  assumes "userId \<notin> fst ` set m" and "userId \<in> set object_prototype_names"
  shows "decryptMessage cr contentString (KeyMap m) ivString privateKey userId
           = Inl (DOMException InvalidCharacterError)"
  by (simp add: decryptMessage_def select_key_inherited [OF assms] base64ToArrayBuffer_def
      atob_inherited)

lemma decryptMessage_selected:
  assumes "select_key keys userId = Inr (b64_encode w)"
  shows "decryptMessage cr (b64_encode c) keys (b64_encode nonce) privateKey userId =
     (case rsa_oaep_decrypt cr privateKey w of
        None \<Rightarrow> Inl (DOMException OperationError)
      | Some rawSessionKey \<Rightarrow>
          (case importKey_raw rawSessionKey of
             Inl e \<Rightarrow> Inl e
           | Inr sessionKey \<Rightarrow>
               (case aes_gcm_decrypt cr sessionKey nonce c of
                  None \<Rightarrow> Inl (DOMException OperationError)
                | Some pt \<Rightarrow> Inr (TextDecoder_decode pt))))"
  using assms
  by (simp add: decryptMessage_def base64ToArrayBuffer_b64_encode subtle_result_def
      split: option.split sum.split)

lemma unwrap_failure:
  assumes "select_key keys userId = Inr (b64_encode w)"
    and "rsa_oaep_decrypt cr privateKey w = None"
  shows "decryptMessage cr contentString keys ivString privateKey userId
           = Inl (DOMException OperationError)"
  using assms
  by (simp add: decryptMessage_def base64ToArrayBuffer_b64_encode subtle_result_def)

lemma select_key_entry:
  assumes "map_of m userId = Some s" and "s \<noteq> []"
  shows "select_key (KeyMap m) userId = Inr s"
  using assms by (simp add: select_key_def get_property_def falsy_def to_DOMString_def)

lemma encrypt_then_decrypt:
  assumes "wraps_succeed cr" and "unwrap_correct cr" and "cipher_succeeds cr" and "cipher_correct cr"
    and "distinct (map fst recipientPublicKeys)"
    and "(userId, publicKey) \<in> set recipientPublicKeys"
    and "paired cr publicKey privateKey"
    and "userId \<noteq> js ''__proto__''"
  shows "\<exists>env. encryptMessage cr rnd text recipientPublicKeys = Inr env
             \<and> decrypt_envelope cr env privateKey userId
                 = Inr (TextDecoder_decode (TextEncoder_encode text))"
proof -
  let ?k = "generateKey_aes rnd" and ?n = "getRandomValues12 rnd"
  from encryptMessage_returns [OF assms(1,3)] obtain env
    where env: "encryptMessage cr rnd text recipientPublicKeys = Inr env" by blast
  then obtain c where c: "aes_gcm_encrypt cr ?k ?n (TextEncoder_encode text) = Some c"
    and content: "encryptedContent env = b64_encode c" and nonce: "iv env = b64_encode ?n"
    and w: "wrap_keys cr rnd ?k 0 recipientPublicKeys [] = Inr (encryptedKeys env)"
    by (auto simp: encryptMessage_eq split: option.splits sum.splits)
  from assms(6) obtain j where j: "j < length recipientPublicKeys"
    and entry: "recipientPublicKeys ! j = (userId, publicKey)"
    by (auto simp: in_set_conv_nth)
  from wrap_keys_entry [OF w assms(5) j] entry assms(8) obtain wk
    where wk: "rsa_oaep_encrypt cr publicKey (oaep_seed rnd j) ?k = Some wk"
      and look: "map_of (encryptedKeys env) userId = Some (b64_encode wk)"
    by auto
  from assms(1) length_generateKey_aes [of rnd]
  obtain wk' where "rsa_oaep_encrypt cr publicKey (oaep_seed rnd j) ?k = Some wk'" "wk' \<noteq> []"
    unfolding wraps_succeed_def by blast
  with wk have "wk \<noteq> []" by simp
  then have sel: "select_key (KeyMap (encryptedKeys env)) userId = Inr (b64_encode wk)"
    using look by (intro select_key_entry b64_encode_nonempty)
  from assms(2,7) wk have un: "rsa_oaep_decrypt cr privateKey wk = Some ?k"
    unfolding unwrap_correct_def by blast
  from assms(4) c have dec: "aes_gcm_decrypt cr ?k ?n c = Some (TextEncoder_encode text)"
    unfolding cipher_correct_def by blast
  have "decrypt_envelope cr env privateKey userId = Inr (TextDecoder_decode (TextEncoder_encode text))"
    unfolding decrypt_envelope_def content nonce decryptMessage_selected [OF sel]
    by (simp add: un dec importKey_raw_def length_generateKey_aes)
  with env show ?thesis by blast
qed

lemma legacy_decrypt:
  assumes "unwrap_correct cr" and "cipher_correct cr"
    and "paired cr publicKey privateKey"
    and "rsa_oaep_encrypt cr publicKey seed sessionKey = Some w"
    and "length sessionKey = 32"
    and "aes_gcm_encrypt cr sessionKey nonce (TextEncoder_encode text) = Some c"
  shows "decryptMessage cr (b64_encode c) (Legacy (b64_encode w)) (b64_encode nonce) privateKey userId
           = Inr (TextDecoder_decode (TextEncoder_encode text))"
proof -
  have sel: "select_key (Legacy (b64_encode w)) userId = Inr (b64_encode w)"
    by (simp add: select_key_def)
  from assms(1,3,4) have "rsa_oaep_decrypt cr privateKey w = Some sessionKey"
    unfolding unwrap_correct_def by blast
  moreover from assms(2,6) have "aes_gcm_decrypt cr sessionKey nonce c = Some (TextEncoder_encode text)"
    unfolding cipher_correct_def by blast
  ultimately show ?thesis
    unfolding decryptMessage_selected [OF sel] by (simp add: importKey_raw_def assms(5))
qed

lemma authentication_failure:
  assumes "select_key keys userId = Inr (b64_encode w)"
    and "rsa_oaep_decrypt cr privateKey w = Some sessionKey"
    and "aes_gcm_decrypt cr sessionKey nonce c = None"
    and "length sessionKey = 32"
  shows "decryptMessage cr (b64_encode c) keys (b64_encode nonce) privateKey userId
           = Inl (DOMException OperationError)"
  unfolding decryptMessage_selected [OF assms(1)] by (simp add: assms importKey_raw_def)

section \<open>The reference platform meets the contract\<close>

lemma ref_wraps_succeed: "wraps_succeed ref_platform"
  by (simp add: wraps_succeed_def ref_platform_def)

lemma ref_unwrap_correct: "unwrap_correct ref_platform"
  by (auto simp: unwrap_correct_def ref_platform_def)

lemma ref_cipher_succeeds: "cipher_succeeds ref_platform"
  by (simp add: cipher_succeeds_def ref_platform_def)

lemma ref_cipher_correct: "cipher_correct ref_platform"
  by (auto simp: cipher_correct_def ref_platform_def)

section \<open>Properties of the batch of stored messages\<close>

lemma Promise_all_fulfilled: "Promise_all (map Inr vs) = Inr vs"
  by (induction vs) simp_all

lemma decrypt_one_fulfils:
  "decrypt_one cr JSON_parse privateKey user m =
     Inr \<lparr>msg = m,
          decryptedContent = (case try_decrypt cr JSON_parse privateKey user m of
                                Inr decryptedText \<Rightarrow> decryptedText
                              | Inl e \<Rightarrow> decryption_failed),
          is_mine = (Some (sender_id m) = user)\<rparr>"
  by (simp add: decrypt_one_def split: sum.split)

section \<open>The claims about encryption and decryption\<close>

text \<open>
  Claim C1, as amended. On a platform that meets the contract, for every recipient record
  with distinct identities, every entry of it whose identity is not \<open>__proto__\<close> and the
  private key paired with the entry's public key: encrypting a plaintext and decrypting
  the result as that recipient returns the plaintext, provided the plaintext is a
  well-formed string (no unpaired surrogate) that does not begin with U+FEFF. For any
  plaintext the result is what \<open>TextDecoder\<close> makes of the bytes \<open>TextEncoder\<close> wrote
  (lemma \<open>encrypt_then_decrypt\<close>).
\<close>

theorem roundtrip_for_recipient:
  assumes "wraps_succeed cr" and "unwrap_correct cr" and "cipher_succeeds cr" and "cipher_correct cr"
    and "distinct (map fst recipientPublicKeys)"
    and "(userId, publicKey) \<in> set recipientPublicKeys"
    and "paired cr publicKey privateKey"
    and "userId \<noteq> js ''__proto__''"
    and "well_formed text" and "text = [] \<or> hd text \<noteq> 0xFEFF"
  shows "decrypt_encrypted cr rnd text recipientPublicKeys privateKey userId = Inr text"
proof -
  from encrypt_then_decrypt [OF assms(1-8), of rnd "text"] obtain env
    where "encryptMessage cr rnd text recipientPublicKeys = Inr env"
      and "decrypt_envelope cr env privateKey userId = Inr (TextDecoder_decode (TextEncoder_encode text))"
    by blast
  then show ?thesis
    by (simp add: decrypt_encrypted_def text_roundtrip [OF assms(9,10)])
qed

theorem roundtrip_for_recipient_witness:
  "decrypt_encrypted ref_platform ref_random (js ''hello'') [(js ''alice'', 1), (js ''bob'', 2)]
     2 (js ''bob'') = Inr (js ''hello'')"
proof (rule roundtrip_for_recipient [OF ref_wraps_succeed ref_unwrap_correct ref_cipher_succeeds
      ref_cipher_correct])
  show "distinct (map fst [(js ''alice'', 1 :: 8 word), (js ''bob'', 2)])"
    by (simp add: js_def)
  show "(js ''bob'', 2) \<in> set [(js ''alice'', 1 :: 8 word), (js ''bob'', 2)]" by simp
  show "paired ref_platform (2 :: 8 word) 2" by (simp add: ref_platform_def)
  show "js ''bob'' \<noteq> js ''__proto__''" by (simp add: js_def)
  show "well_formed (js ''hello'')"
    by (simp add: js_def surrogate_def high_surrogate_def low_surrogate_def)
  show "js ''hello'' = [] \<or> hd (js ''hello'') \<noteq> 0xFEFF" by (simp add: js_def)
qed

text \<open>
  The claim as stated fails on a plaintext that begins with U+FEFF, which the decoder
  drops, and on one with an unpaired surrogate, which the encoder replaces by U+FFFD.
\<close>

theorem roundtrip_counterexample:
  "decrypt_encrypted ref_platform ref_random (0xFEFF # js ''hi'') [(js ''alice'', 1)] 1 (js ''alice'')
     = Inr (js ''hi'')
   \<and> decrypt_encrypted ref_platform ref_random (0xFEFF # js ''hi'') [(js ''alice'', 1)] 1 (js ''alice'')
     \<noteq> Inr (0xFEFF # js ''hi'')
   \<and> decrypt_encrypted ref_platform ref_random [0x61, 0xD800] [(js ''alice'', 1)] 1 (js ''alice'')
     = Inr [0x61, 0xFFFD]"
proof -
  have p: "paired ref_platform (1 :: 8 word) 1" by (simp add: ref_platform_def)
  have d: "distinct (map fst [(js ''alice'', 1 :: 8 word)])"
    and m: "(js ''alice'', 1) \<in> set [(js ''alice'', 1 :: 8 word)]" by simp_all
  have n: "js ''alice'' \<noteq> js ''__proto__''" by (simp add: js_def)
  note rt = encrypt_then_decrypt [OF ref_wraps_succeed ref_unwrap_correct ref_cipher_succeeds
      ref_cipher_correct d m p n, of ref_random]
  have "TextDecoder_decode (TextEncoder_encode (0xFEFF # js ''hi'')) = js ''hi''"
    by (simp add: text_codec js_def surrogate_def high_surrogate_def low_surrogate_def
        strip_bom_def code_units_def)
  moreover have "TextDecoder_decode (TextEncoder_encode [0x61, 0xD800]) = [0x61, 0xFFFD]"
    by (simp add: text_codec surrogate_def high_surrogate_def low_surrogate_def
        strip_bom_def code_units_def)
  ultimately show ?thesis
    using rt [of "0xFEFF # js ''hi''"] rt [of "[0x61, 0xD800]"]
    by (auto simp: decrypt_encrypted_def)
qed

text \<open>
  What the loop of step 4 leaves in \<open>encryptedKeys\<close>. When \<open>encryptMessage\<close> returns
  an envelope for a recipient record with distinct identities, the identities of
  \<open>encryptedKeys\<close> are those of the record other than \<open>__proto__\<close>, each once, and the
  entry of every such recipient is the base64 of the session key wrapped under that
  recipient's public key with that recipient's own seed.
\<close>

lemma encryptedKeys_identities:
  assumes "encryptMessage cr rnd text recipientPublicKeys = Inr env"
    and "distinct (map fst recipientPublicKeys)"
  shows "fst ` set (encryptedKeys env) = fst ` set recipientPublicKeys - {js ''__proto__''}
       \<and> distinct (map fst (encryptedKeys env))
       \<and> (\<forall>j < length recipientPublicKeys. fst (recipientPublicKeys ! j) \<noteq> js ''__proto__'' \<longrightarrow>
            (\<exists>c. rsa_oaep_encrypt cr (snd (recipientPublicKeys ! j)) (oaep_seed rnd j)
                   (generateKey_aes rnd) = Some c
               \<and> map_of (encryptedKeys env) (fst (recipientPublicKeys ! j)) = Some (b64_encode c)))"
proof -
  from assms(1)
  have w: "wrap_keys cr rnd (generateKey_aes rnd) 0 recipientPublicKeys [] = Inr (encryptedKeys env)"
    by (auto simp: encryptMessage_eq split: option.splits sum.splits)
  from wrap_keys_keys [OF w]
  have "fst ` set (encryptedKeys env) = fst ` set recipientPublicKeys - {js ''__proto__''}"
    by simp
  moreover from wrap_keys_distinct [OF w] have "distinct (map fst (encryptedKeys env))" by simp
  moreover from wrap_keys_entry [OF w assms(2)]
  have "\<forall>j < length recipientPublicKeys. fst (recipientPublicKeys ! j) \<noteq> js ''__proto__'' \<longrightarrow>
            (\<exists>c. rsa_oaep_encrypt cr (snd (recipientPublicKeys ! j)) (oaep_seed rnd j)
                   (generateKey_aes rnd) = Some c
               \<and> map_of (encryptedKeys env) (fst (recipientPublicKeys ! j)) = Some (b64_encode c))"
    by simp
  ultimately show ?thesis by blast
qed

text \<open>
  Claim C2 fails in the code for a recipient record with the own property
  \<open>__proto__\<close>. For the record with the two identities \<open>__proto__\<close> and \<open>bob\<close> the
  loop wraps the session key twice, but the assignment to \<open>encryptedKeys["__proto__"]\<close>
  stores nothing: the envelope returned has the one identity \<open>bob\<close>, with the key
  wrapped with the second seed.
\<close>

theorem proto_recipient_omitted:
  "encryptMessage ref_platform ref_random (js ''hello'') [(js ''__proto__'', 1), (js ''bob'', 2)]
     = Inr \<lparr>encryptedContent = js ''AeFoZWxsbw=='',
            encryptedKeys = [(js ''bob'', js ''AhUBCA8WHSQrMjlAR05VXGNqcXh/ho2Um6KpsLe+xczT2g=='')],
            iv = js ''4ejv9v0ECxIZICcu''\<rparr>"
  by code_simp

text \<open>
  Claim C3, as amended. \<open>encryptMessage\<close> has no check of the recipient record: on a
  platform whose operations succeed it returns an envelope for every record, and for the
  empty record the envelope it returns has no wrapped key.
\<close>

theorem encryptMessage_never_rejects_recipients:
  assumes "wraps_succeed cr" and "cipher_succeeds cr"
  shows "(\<exists>env. encryptMessage cr rnd text recipientPublicKeys = Inr env)
       \<and> (\<exists>env. encryptMessage cr rnd text [] = Inr env \<and> encryptedKeys env = [])"
  using encryptMessage_returns [OF assms] encryptMessage_no_recipients by blast

theorem encryptMessage_never_rejects_recipients_witness:
  "(\<exists>env. encryptMessage ref_platform ref_random (js ''hello'') [(js ''alice'', 1)] = Inr env)
   \<and> (\<exists>env. encryptMessage ref_platform ref_random (js ''hello'') [] = Inr env
            \<and> encryptedKeys env = [])"
  by (rule encryptMessage_never_rejects_recipients [OF ref_wraps_succeed ref_cipher_succeeds])

text \<open>
  The claim as stated says the call fails for the empty record. It returns this envelope.
\<close>

theorem empty_recipients_counterexample:
  "encryptMessage ref_platform ref_random (js ''hello'') []
     = Inr \<lparr>encryptedContent = js ''AeFoZWxsbw=='', encryptedKeys = [],
            iv = js ''4ejv9v0ECxIZICcu''\<rparr>"
  by code_simp

text \<open>
  The check of \<open>decryptMessage\<close> for a missing key. When the wrapped keys are a record,
  the holder identity is not one of its keys and is not a name of \<open>Object.prototype\<close>,
  \<open>decryptMessage\<close> throws the \<open>Error\<close> whose message names the identity, whatever the
  platform, the private key, the content and the nonce are: nothing is decoded, unwrapped
  or decrypted before. The exception is none of the platform's.
\<close>

lemma absent_key_error:
  assumes "userId \<notin> fst ` set m" and "userId \<notin> set object_prototype_names"
  shows "decryptMessage cr contentString (KeyMap m) ivString privateKey userId
           = Inl (Error (js ''No encrypted key found for user '' @ userId))
       \<and> (\<forall>d. decryptMessage cr contentString (KeyMap m) ivString privateKey userId
           \<noteq> Inl (DOMException d))"
proof -
  from assms have "select_key (KeyMap m) userId = Inl (no_key_error userId)"
    by (rule select_key_absent)
  then have "decryptMessage cr contentString (KeyMap m) ivString privateKey userId
               = Inl (no_key_error userId)"
    by (simp add: decryptMessage_def)
  then show ?thesis by (simp add: no_key_error_def)
qed

lemma absent_key_error_example:
  "decryptMessage ref_platform (js ''AQID'') (KeyMap [(js ''alice'', js ''AQIDBA=='')]) (js ''BAUG'')
     1 (js ''carol'') = Inl (Error (js ''No encrypted key found for user carol''))"
  using absent_key_error [of "js ''carol''" "[(js ''alice'', js ''AQIDBA=='')]" ref_platform
      "js ''AQID''" "js ''BAUG''" 1]
  by (simp add: js_def object_prototype_names_def)

text \<open>
  Claim C4 fails in the code for a holder identity that is a name of
  \<open>Object.prototype\<close>. With the one wrapped key of \<open>alice\<close> and the holder identity
  \<open>constructor\<close>, which is not a key of the record, \<open>encryptedKeys[userId]\<close> reads the
  inherited function, the check \<open>!encryptedKeyStr\<close> lets it pass, and the call ends in
  the \<open>InvalidCharacterError\<close> of \<open>atob\<close>, on every platform and for every content,
  nonce and private key; it does not throw the \<open>Error\<close> that names the identity.
\<close>

theorem inherited_name_passes_check:
  "decryptMessage cr contentString (KeyMap [(js ''alice'', js ''AQIDBA=='')]) ivString privateKey
       (js ''constructor'')
     = Inl (DOMException InvalidCharacterError)
   \<and> decryptMessage cr contentString (KeyMap [(js ''alice'', js ''AQIDBA=='')]) ivString privateKey
       (js ''constructor'')
     \<noteq> Inl (Error (js ''No encrypted key found for user constructor''))"
proof -
  have "js ''constructor'' \<notin> fst ` set [(js ''alice'', js ''AQIDBA=='')]"
    by (simp add: js_def)
  moreover have "js ''constructor'' \<in> set object_prototype_names"
    by (simp add: object_prototype_names_def)
  ultimately show ?thesis by (simp add: decryptMessage_inherited)
qed

text \<open>
  Claim C5, as amended. For a legacy envelope whose single key string wraps the session
  key under the public key paired with the holder's private key, \<open>decryptMessage\<close>
  unwraps that string and returns the plaintext for every holder identity, provided the
  plaintext is well formed and does not begin with U+FEFF. For every legacy envelope,
  readable or not, the result is the same for any two holder identities.
\<close>

theorem legacy_ignores_userId:
  assumes "unwrap_correct cr" and "cipher_correct cr"
    and "paired cr publicKey privateKey"
    and "rsa_oaep_encrypt cr publicKey seed sessionKey = Some w"
    and "length sessionKey = 32"
    and "aes_gcm_encrypt cr sessionKey nonce (TextEncoder_encode text) = Some c"
    and "well_formed text" and "text = [] \<or> hd text \<noteq> 0xFEFF"
  shows "decryptMessage cr (b64_encode c) (Legacy (b64_encode w)) (b64_encode nonce) privateKey userId
           = Inr text
       \<and> decryptMessage cr contentString (Legacy keyString) ivString anyKey userId
           = decryptMessage cr contentString (Legacy keyString) ivString anyKey otherId"
  using legacy_decrypt [OF assms(1-6)] text_roundtrip [OF assms(7,8)]
  by (simp add: decryptMessage_def select_key_def)

lemma ref_wrapped: "rsa_oaep_encrypt ref_platform 1 [] ref_key = Some (1 # 0 # ref_key)"
  by (simp add: ref_platform_def)

lemma ref_sealed: "aes_gcm_encrypt ref_platform ref_key ref_nonce pt = Some (ref_tag ref_key ref_nonce @ pt)"
  by (simp add: ref_platform_def)

lemma length_ref_key: "length ref_key = 32"
  by (simp add: ref_key_def length_generateKey_aes)

lemma ref_paired: "paired ref_platform (1 :: 8 word) 1"
  by (simp add: ref_platform_def)

theorem legacy_ignores_userId_witness:
  "decryptMessage ref_platform (b64_encode (ref_tag ref_key ref_nonce @ TextEncoder_encode (js ''hello'')))
       (Legacy (b64_encode (1 # 0 # ref_key))) (b64_encode ref_nonce) 1 (js ''bob'')
     = Inr (js ''hello'')
   \<and> decryptMessage ref_platform (js ''AAAA'') (Legacy (js ''AQID'')) (js ''BAUG'') 1 (js ''bob'')
     = decryptMessage ref_platform (js ''AAAA'') (Legacy (js ''AQID'')) (js ''BAUG'') 1 (js ''alice'')"
proof (rule legacy_ignores_userId [OF ref_unwrap_correct ref_cipher_correct ref_paired ref_wrapped
      length_ref_key ref_sealed])
  show "well_formed (js ''hello'')"
    by (simp add: js_def surrogate_def high_surrogate_def low_surrogate_def)
  show "js ''hello'' = [] \<or> hd (js ''hello'') \<noteq> 0xFEFF" by (simp add: js_def)
qed

text \<open>
  The claim as stated fails on the legacy envelope of a plaintext that begins with
  U+FEFF: wrapped for the holder's key pair, it decrypts to the plaintext without its
  first code unit.
\<close>

theorem legacy_counterexample:
  "rsa_oaep_encrypt ref_platform 1 [] ref_key = Some (1 # 0 # ref_key)
   \<and> aes_gcm_encrypt ref_platform ref_key ref_nonce (TextEncoder_encode (0xFEFF # js ''legacy''))
       = Some (ref_tag ref_key ref_nonce @ TextEncoder_encode (0xFEFF # js ''legacy''))
   \<and> decryptMessage ref_platform
         (b64_encode (ref_tag ref_key ref_nonce @ TextEncoder_encode (0xFEFF # js ''legacy'')))
         (Legacy (b64_encode (1 # 0 # ref_key))) (b64_encode ref_nonce) 1 (js ''bob'')
       = Inr (js ''legacy'')
   \<and> decryptMessage ref_platform
         (b64_encode (ref_tag ref_key ref_nonce @ TextEncoder_encode (0xFEFF # js ''legacy'')))
         (Legacy (b64_encode (1 # 0 # ref_key))) (b64_encode ref_nonce) 1 (js ''bob'')
       \<noteq> Inr (0xFEFF # js ''legacy'')"
proof -
  have "TextDecoder_decode (TextEncoder_encode (0xFEFF # js ''legacy'')) = js ''legacy''"
    by (simp add: text_codec js_def surrogate_def high_surrogate_def low_surrogate_def
        strip_bom_def code_units_def)
  with legacy_decrypt [OF ref_unwrap_correct ref_cipher_correct ref_paired ref_wrapped
      length_ref_key ref_sealed, of "0xFEFF # js ''legacy''" "js ''bob''"]
  show ?thesis by (simp add: ref_wrapped ref_sealed)
qed

text \<open>
  Two calls of \<open>encryptMessage\<close> on the same plaintext and recipients, each with its own
  random values: the \<open>iv\<close> fields of the two envelopes differ whenever the two nonces
  differ, and the \<open>encryptedContent\<close> fields differ exactly when the two AES-GCM
  ciphertexts do.
\<close>

lemma distinct_nonces_distinct_ivs:
  assumes "encryptMessage cr rnd1 text recipientPublicKeys = Inr env1"
    and "encryptMessage cr rnd2 text recipientPublicKeys = Inr env2"
    and "getRandomValues12 rnd1 \<noteq> getRandomValues12 rnd2"
  shows "iv env1 \<noteq> iv env2"
proof -
  from assms(1,2) have "iv env1 = b64_encode (getRandomValues12 rnd1)"
    and "iv env2 = b64_encode (getRandomValues12 rnd2)"
    by (auto simp: encryptMessage_eq split: option.splits sum.splits)
  with assms(3) show ?thesis using b64_encode_inject by auto
qed

lemma contents_differ_with_ciphertexts:
  assumes "encryptMessage cr rnd1 text recipientPublicKeys = Inr env1"
    and "encryptMessage cr rnd2 text recipientPublicKeys = Inr env2"
  shows "encryptedContent env1 = encryptedContent env2 \<longleftrightarrow>
         aes_gcm_encrypt cr (generateKey_aes rnd1) (getRandomValues12 rnd1) (TextEncoder_encode text)
           = aes_gcm_encrypt cr (generateKey_aes rnd2) (getRandomValues12 rnd2) (TextEncoder_encode text)"
  using assms b64_encode_inject
  by (auto simp: encryptMessage_eq split: option.splits sum.splits)

text \<open>
  Claim C6. Two calls of \<open>encryptMessage\<close> with the same plaintext and the same
  recipient record that both return, run with two random sources that give different
  nonces, return envelopes whose \<open>iv\<close> fields differ; and whose \<open>encryptedContent\<close>
  fields differ too, when the platform's AES-GCM gives the plaintext different
  ciphertexts under the two pairs of session key and nonce. The second hypothesis is the
  cipher's part: the source passes the ciphertext on through an injective encoding.
\<close>

theorem fresh_randomness_fresh_envelope:
  assumes "encryptMessage cr rnd1 text recipientPublicKeys = Inr env1"
    and "encryptMessage cr rnd2 text recipientPublicKeys = Inr env2"
    and "getRandomValues12 rnd1 \<noteq> getRandomValues12 rnd2"
    and "aes_gcm_encrypt cr (generateKey_aes rnd1) (getRandomValues12 rnd1) (TextEncoder_encode text)
           \<noteq> aes_gcm_encrypt cr (generateKey_aes rnd2) (getRandomValues12 rnd2) (TextEncoder_encode text)"
  shows "iv env1 \<noteq> iv env2 \<and> encryptedContent env1 \<noteq> encryptedContent env2"
  using distinct_nonces_distinct_ivs [OF assms(1-3)] contents_differ_with_ciphertexts [OF assms(1,2)]
    assms(4)
  by simp

lemma other_envelope:
  "encryptMessage ref_platform other_random (js ''hello'') [(js ''alice'', 1)]
     = Inr \<lparr>encryptedContent = js ''AuJoZWxsbw=='',
            encryptedKeys = [(js ''alice'', js ''ATYCCRAXHiUsMzpBSE9WXWRrcnmAh46VnKOqsbi/xs3U2w=='')],
            iv = js ''4unw9/4FDBMaISgv''\<rparr>"
  by code_simp

lemma envelope_for_alice_sent:
  "encryptMessage ref_platform ref_random (js ''hello'') [(js ''alice'', 1)] = Inr envelope_for_alice"
  unfolding envelope_for_alice_def by code_simp

lemma envelope_for_bob_sent:
  "encryptMessage ref_platform ref_random (js ''hello'') [(js ''bob'', 2)] = Inr envelope_for_bob"
  unfolding envelope_for_bob_def by code_simp

lemma nonces_differ: "getRandomValues12 ref_random \<noteq> getRandomValues12 other_random"
  by (simp add: getRandomValues12_def ref_random_def other_random_def upt_conv_Cons)

lemma ciphertexts_differ:
  "aes_gcm_encrypt ref_platform (generateKey_aes ref_random) (getRandomValues12 ref_random) pt
     \<noteq> aes_gcm_encrypt ref_platform (generateKey_aes other_random) (getRandomValues12 other_random) pt"
  by (simp add: ref_platform_def ref_tag_def generateKey_aes_def getRandomValues12_def
      ref_random_def other_random_def upt_conv_Cons)

theorem fresh_randomness_fresh_envelope_witness:
  "\<exists>env1 env2.
      encryptMessage ref_platform ref_random (js ''hello'') [(js ''alice'', 1)] = Inr env1
    \<and> encryptMessage ref_platform other_random (js ''hello'') [(js ''alice'', 1)] = Inr env2
    \<and> iv env1 \<noteq> iv env2 \<and> encryptedContent env1 \<noteq> encryptedContent env2"
proof -
  note differ = fresh_randomness_fresh_envelope [OF envelope_for_alice_sent other_envelope
      nonces_differ ciphertexts_differ]
  show ?thesis
  proof (intro exI conjI)
    show "encryptMessage ref_platform ref_random (js ''hello'') [(js ''alice'', 1)]
            = Inr envelope_for_alice"
      by (rule envelope_for_alice_sent)
    show "encryptMessage ref_platform other_random (js ''hello'') [(js ''alice'', 1)]
            = Inr \<lparr>encryptedContent = js ''AuJoZWxsbw=='',
                   encryptedKeys =
                     [(js ''alice'', js ''ATYCCRAXHiUsMzpBSE9WXWRrcnmAh46VnKOqsbi/xs3U2w=='')],
                   iv = js ''4unw9/4FDBMaISgv''\<rparr>"
      by (rule other_envelope)
    show "iv envelope_for_alice
            \<noteq> iv \<lparr>encryptedContent = js ''AuJoZWxsbw=='',
                   encryptedKeys =
                     [(js ''alice'', js ''ATYCCRAXHiUsMzpBSE9WXWRrcnmAh46VnKOqsbi/xs3U2w=='')],
                   iv = js ''4unw9/4FDBMaISgv''\<rparr>"
      by (rule differ [THEN conjunct1])
    show "encryptedContent envelope_for_alice
            \<noteq> encryptedContent \<lparr>encryptedContent = js ''AuJoZWxsbw=='',
                   encryptedKeys =
                     [(js ''alice'', js ''ATYCCRAXHiUsMzpBSE9WXWRrcnmAh46VnKOqsbi/xs3U2w=='')],
                   iv = js ''4unw9/4FDBMaISgv''\<rparr>"
      by (rule differ [THEN conjunct2])
  qed
qed

text \<open>
  The batch is fulfilled for every list of stored messages, platform and JSON parser,
  with one result per message in the order of the messages; each result is made from its
  message alone.
\<close>

lemma decryptedMessages_eq:
  "decryptedMessages cr JSON_parse privateKey user data =
     Inr (map (\<lambda>m. \<lparr>msg = m,
                      decryptedContent = (case try_decrypt cr JSON_parse privateKey user m of
                                            Inr decryptedText \<Rightarrow> decryptedText
                                          | Inl e \<Rightarrow> decryption_failed),
                      is_mine = (Some (sender_id m) = user)\<rparr>) data)"
proof -
  have "map (decrypt_one cr JSON_parse privateKey user) data =
        map Inr (map (\<lambda>m. \<lparr>msg = m,
                      decryptedContent = (case try_decrypt cr JSON_parse privateKey user m of
                                            Inr decryptedText \<Rightarrow> decryptedText
                                          | Inl e \<Rightarrow> decryption_failed),
                      is_mine = (Some (sender_id m) = user)\<rparr>) data)"
    by (simp add: decrypt_one_fulfils)
  then show ?thesis
    unfolding decryptedMessages_def by (simp only: Promise_all_fulfilled)
qed

lemma try_decrypt_unparsed:
  "JSON_parse (content m) = Inl e \<Longrightarrow> try_decrypt cr JSON_parse privateKey user m = Inl e"
  by (simp add: try_decrypt_def)

lemma try_decrypt_parsed:
  "JSON_parse (content m) = Inr parsedContent \<Longrightarrow>
   try_decrypt cr JSON_parse privateKey user m =
     (case keys_or_key parsedContent of
        None \<Rightarrow> Inl TypeError
      | Some keys \<Rightarrow>
          decryptMessage cr (dom_string (pc_encryptedContent parsedContent)) keys
            (dom_string (pc_iv parsedContent)) privateKey (user_id_or_empty user))"
  by (simp add: try_decrypt_def)

lemma try_decrypt_envelope:
  "JSON_parse (content m) = Inr (parsed_envelope env) \<Longrightarrow>
   try_decrypt cr JSON_parse privateKey (Some userId) m = decrypt_envelope cr env privateKey userId"
  by (simp add: try_decrypt_def parsed_envelope_def keys_or_key_def truthy_keys_def
      dom_string_def user_id_or_empty_def decrypt_envelope_def)

lemma decrypt_sent:
  assumes "wraps_succeed cr" and "unwrap_correct cr" and "cipher_succeeds cr" and "cipher_correct cr"
    and "encryptMessage cr rnd text recipientPublicKeys = Inr env"
    and "distinct (map fst recipientPublicKeys)"
    and "(userId, publicKey) \<in> set recipientPublicKeys"
    and "paired cr publicKey privateKey"
    and "userId \<noteq> js ''__proto__''"
    and "well_formed text" and "text = [] \<or> hd text \<noteq> 0xFEFF"
  shows "decrypt_envelope cr env privateKey userId = Inr text"
  using encrypt_then_decrypt [OF assms(1-4,6-9), of rnd "text"] assms(5)
    text_roundtrip [OF assms(10,11)]
  by auto

text \<open>
  Claim C7. On a platform that meets the contract, the batch is fulfilled for every list
  of stored messages, with one result per message, in order, each holding its message.
  A message whose content does not parse, whose parsed content has no wrapped keys, or
  for which \<open>decryptMessage\<close> throws, gets the placeholder; a message for which
  \<open>decryptMessage\<close> returns gets the text returned; and a message whose content parses
  to an envelope that \<open>encryptMessage\<close> returned for a plaintext and a recipient record
  with the holder in it gets that plaintext (well formed, not beginning with U+FEFF; the
  identities distinct, the holder's not \<open>__proto__\<close>), whatever the other messages of
  the batch are. The result of a message is the same in every batch that has the message
  at that place.
\<close>

theorem batch_decrypts_each_alone:
  assumes "wraps_succeed cr" and "unwrap_correct cr" and "cipher_succeeds cr" and "cipher_correct cr"
  shows "\<exists>out. decryptedMessages cr JSON_parse privateKey user data = Inr out
      \<and> length out = length data
      \<and> (\<forall>i < length data.
           msg (out ! i) = data ! i
         \<and> (\<forall>e. JSON_parse (content (data ! i)) = Inl e \<longrightarrow>
                decryptedContent (out ! i) = decryption_failed)
         \<and> (\<forall>parsedContent. JSON_parse (content (data ! i)) = Inr parsedContent \<longrightarrow>
                decryptedContent (out ! i) =
                  (case keys_or_key parsedContent of
                     None \<Rightarrow> decryption_failed
                   | Some keys \<Rightarrow>
                       (case decryptMessage cr (dom_string (pc_encryptedContent parsedContent)) keys
                               (dom_string (pc_iv parsedContent)) privateKey (user_id_or_empty user) of
                          Inl e \<Rightarrow> decryption_failed
                        | Inr decryptedText \<Rightarrow> decryptedText)))
         \<and> (\<forall>env rnd text recipientPublicKeys userId publicKey.
                JSON_parse (content (data ! i)) = Inr (parsed_envelope env) \<longrightarrow>
                encryptMessage cr rnd text recipientPublicKeys = Inr env \<longrightarrow>
                user = Some userId \<longrightarrow> userId \<noteq> js ''__proto__'' \<longrightarrow>
                distinct (map fst recipientPublicKeys) \<longrightarrow>
                (userId, publicKey) \<in> set recipientPublicKeys \<longrightarrow>
                paired cr publicKey privateKey \<longrightarrow>
                well_formed text \<longrightarrow> (text = [] \<or> hd text \<noteq> 0xFEFF) \<longrightarrow>
                decryptedContent (out ! i) = text)
         \<and> (\<forall>data'. i < length data' \<longrightarrow> data' ! i = data ! i \<longrightarrow>
                (\<exists>out'. decryptedMessages cr JSON_parse privateKey user data' = Inr out'
                       \<and> out' ! i = out ! i)))"
proof (rule exI [of _ "map (\<lambda>m. \<lparr>msg = m,
                  decryptedContent = (case try_decrypt cr JSON_parse privateKey user m of
                                        Inr decryptedText \<Rightarrow> decryptedText
                                      | Inl e \<Rightarrow> decryption_failed),
                  is_mine = (Some (sender_id m) = user)\<rparr>) data"], intro conjI allI impI)
  let ?f = "\<lambda>m. \<lparr>msg = m,
                  decryptedContent = (case try_decrypt cr JSON_parse privateKey user m of
                                        Inr decryptedText \<Rightarrow> decryptedText
                                      | Inl e \<Rightarrow> decryption_failed),
                  is_mine = (Some (sender_id m) = user)\<rparr>"
  show "decryptedMessages cr JSON_parse privateKey user data = Inr (map ?f data)"
    by (rule decryptedMessages_eq)
  show "length (map ?f data) = length data" by simp
  fix i
  assume i: "i < length data"
  then show "msg (map ?f data ! i) = data ! i" by simp
  {
    fix e
    assume "JSON_parse (content (data ! i)) = Inl e"
    with i show "decryptedContent (map ?f data ! i) = decryption_failed"
      by (simp add: try_decrypt_unparsed)
  }
  {
    fix parsedContent
    assume "JSON_parse (content (data ! i)) = Inr parsedContent"
    with i show "decryptedContent (map ?f data ! i) =
        (case keys_or_key parsedContent of
           None \<Rightarrow> decryption_failed
         | Some keys \<Rightarrow>
             (case decryptMessage cr (dom_string (pc_encryptedContent parsedContent)) keys
                     (dom_string (pc_iv parsedContent)) privateKey (user_id_or_empty user) of
                Inl e \<Rightarrow> decryption_failed
              | Inr decryptedText \<Rightarrow> decryptedText))"
      by (simp add: try_decrypt_parsed split: option.split)
  }
  {
    fix env rnd plaintext recipientPublicKeys userId publicKey
    assume parsed: "JSON_parse (content (data ! i)) = Inr (parsed_envelope env)"
      and sent: "encryptMessage cr rnd plaintext recipientPublicKeys = Inr env"
      and holder: "user = Some userId" "userId \<noteq> js ''__proto__''"
      and recipients: "distinct (map fst recipientPublicKeys)"
        "(userId, publicKey) \<in> set recipientPublicKeys" "paired cr publicKey privateKey"
      and plain: "well_formed plaintext" "plaintext = [] \<or> hd plaintext \<noteq> 0xFEFF"
    from decrypt_sent [OF assms sent recipients holder(2) plain]
    have "decrypt_envelope cr env privateKey userId = Inr plaintext" .
    with i parsed holder(1) show "decryptedContent (map ?f data ! i) = plaintext"
      by (simp add: try_decrypt_envelope)
  }
  {
    fix data'
    assume "i < length data'" and "data' ! i = data ! i"
    with i show "\<exists>out'. decryptedMessages cr JSON_parse privateKey user data' = Inr out'
                       \<and> out' ! i = map ?f data ! i"
      by (simp add: decryptedMessages_eq)
  }
qed

lemma stored_contents_differ:
  "stored_for_bob \<noteq> stored_for_alice" "js ''not json'' \<noteq> stored_for_alice"
  "js ''not json'' \<noteq> stored_for_bob"
  by (simp_all add: stored_for_alice_def stored_for_bob_def js_def)

lemma bob_envelope_unreadable:
  "decrypt_envelope ref_platform envelope_for_bob 1 (js ''alice'')
     = Inl (Error (js ''No encrypted key found for user alice''))"
proof -
  have "js ''alice'' \<notin> fst ` set (encryptedKeys envelope_for_bob)"
    by (simp add: envelope_for_bob_def js_def)
  moreover have "js ''alice'' \<notin> set object_prototype_names"
    by (simp add: object_prototype_names_def js_def)
  moreover have "js ''No encrypted key found for user '' @ js ''alice''
      = js ''No encrypted key found for user alice''"
    by (simp add: js_def)
  ultimately show ?thesis
    unfolding decrypt_envelope_def using absent_key_error by metis
qed

lemma length_stored_batch: "length stored_batch = 4"
  by (simp add: stored_batch_def)

lemma stored_batch_contents:
  "content (stored_batch ! 0) = stored_for_alice" "content (stored_batch ! 1) = js ''not json''"
  "content (stored_batch ! 2) = stored_for_bob" "content (stored_batch ! 3) = stored_for_alice"
  by (simp_all add: stored_batch_def)

lemma ref_JSON_parse_stored:
  "ref_JSON_parse stored_for_alice = Inr (parsed_envelope envelope_for_alice)"
  "ref_JSON_parse stored_for_bob = Inr (parsed_envelope envelope_for_bob)"
  "ref_JSON_parse (js ''not json'') = Inl SyntaxError"
  by (simp_all add: ref_JSON_parse_def stored_contents_differ)

lemma hello_plain:
  "well_formed (js ''hello'')" "js ''hello'' = [] \<or> hd (js ''hello'') \<noteq> 0xFEFF"
  by (simp_all add: js_def surrogate_def high_surrogate_def low_surrogate_def)

lemma alice_recipient:
  "js ''alice'' \<noteq> js ''__proto__''" "distinct (map fst [(js ''alice'', 1 :: 8 word)])"
  "(js ''alice'', 1) \<in> set [(js ''alice'', 1 :: 8 word)]"
  by (simp_all add: js_def)

theorem batch_decrypts_each_alone_witness:
  "\<exists>out. decryptedMessages ref_platform ref_JSON_parse 1 (Some (js ''alice'')) stored_batch = Inr out
       \<and> map decryptedContent out
           = [js ''hello'', decryption_failed, decryption_failed, js ''hello'']"
proof -
  let ?each = "\<lambda>out i.
           msg (out ! i) = stored_batch ! i
         \<and> (\<forall>e. ref_JSON_parse (content (stored_batch ! i)) = Inl e \<longrightarrow>
                decryptedContent (out ! i) = decryption_failed)
         \<and> (\<forall>parsedContent. ref_JSON_parse (content (stored_batch ! i)) = Inr parsedContent \<longrightarrow>
                decryptedContent (out ! i) =
                  (case keys_or_key parsedContent of
                     None \<Rightarrow> decryption_failed
                   | Some keys \<Rightarrow>
                       (case decryptMessage ref_platform (dom_string (pc_encryptedContent parsedContent))
                               keys (dom_string (pc_iv parsedContent)) 1
                               (user_id_or_empty (Some (js ''alice''))) of
                          Inl e \<Rightarrow> decryption_failed
                        | Inr decryptedText \<Rightarrow> decryptedText)))
         \<and> (\<forall>env rnd text recipientPublicKeys userId publicKey.
                ref_JSON_parse (content (stored_batch ! i)) = Inr (parsed_envelope env) \<longrightarrow>
                encryptMessage ref_platform rnd text recipientPublicKeys = Inr env \<longrightarrow>
                Some (js ''alice'') = Some userId \<longrightarrow> userId \<noteq> js ''__proto__'' \<longrightarrow>
                distinct (map fst recipientPublicKeys) \<longrightarrow>
                (userId, publicKey) \<in> set recipientPublicKeys \<longrightarrow>
                paired ref_platform publicKey 1 \<longrightarrow>
                well_formed text \<longrightarrow> (text = [] \<or> hd text \<noteq> 0xFEFF) \<longrightarrow>
                decryptedContent (out ! i) = text)
         \<and> (\<forall>data'. i < length data' \<longrightarrow> data' ! i = stored_batch ! i \<longrightarrow>
                (\<exists>out'. decryptedMessages ref_platform ref_JSON_parse 1 (Some (js ''alice'')) data'
                          = Inr out'
                       \<and> out' ! i = out ! i))"
  from batch_decrypts_each_alone [OF ref_wraps_succeed ref_unwrap_correct ref_cipher_succeeds
      ref_cipher_correct, of ref_JSON_parse 1 "Some (js ''alice'')" stored_batch]
  obtain out
    where all: "decryptedMessages ref_platform ref_JSON_parse 1 (Some (js ''alice'')) stored_batch
                  = Inr out
              \<and> length out = length stored_batch
              \<and> (\<forall>i < length stored_batch. ?each out i)" ..
  note out = all [THEN conjunct1] and len = all [THEN conjunct2, THEN conjunct1]
    and each = all [THEN conjunct2, THEN conjunct2, rule_format]
  have unparsed: "decryptedContent (out ! i) = decryption_failed"
    if "i < length stored_batch" and "ref_JSON_parse (content (stored_batch ! i)) = Inl e" for i e
    by (rule each [OF that(1), THEN conjunct2, THEN conjunct1, rule_format, OF that(2)])
  note parsed = each [THEN conjunct2, THEN conjunct2, THEN conjunct1, rule_format]
  note sent = each [THEN conjunct2, THEN conjunct2, THEN conjunct2, THEN conjunct1, rule_format]
  have hello: "decryptedContent (out ! i) = js ''hello''"
    if "i < length stored_batch" and "content (stored_batch ! i) = stored_for_alice" for i
    by (rule sent [OF that(1) _ envelope_for_alice_sent refl alice_recipient ref_paired hello_plain])
      (simp add: that(2) ref_JSON_parse_stored)
  have in_batch: "0 < length stored_batch" "1 < length stored_batch" "2 < length stored_batch"
    "3 < length stored_batch"
    unfolding length_stored_batch by simp_all
  have "decryptedContent (out ! 0) = js ''hello''"
    by (rule hello [OF in_batch(1) stored_batch_contents(1)])
  moreover have "decryptedContent (out ! 1) = decryption_failed"
  proof (rule unparsed [OF in_batch(2)])
    show "ref_JSON_parse (content (stored_batch ! 1)) = Inl SyntaxError"
      unfolding stored_batch_contents by (rule ref_JSON_parse_stored)
  qed
  moreover have "decryptedContent (out ! 2) = decryption_failed"
  proof -
    have "ref_JSON_parse (content (stored_batch ! 2)) = Inr (parsed_envelope envelope_for_bob)"
      unfolding stored_batch_contents by (rule ref_JSON_parse_stored)
    from parsed [OF in_batch(3) this] bob_envelope_unreadable show ?thesis
      by (simp add: parsed_envelope_def keys_or_key_def truthy_keys_def
          dom_string_def user_id_or_empty_def decrypt_envelope_def)
  qed
  moreover have "decryptedContent (out ! 3) = js ''hello''"
    by (rule hello [OF in_batch(4) stored_batch_contents(4)])
  moreover from len have "length out = 4" by (simp add: length_stored_batch)
  then obtain a b c d where "out = [a, b, c, d]"
    by (auto simp: length_Suc_conv numeral_eq_Suc)
  ultimately show ?thesis using out by simp
qed

text \<open>
  Claim C8, as amended. On a platform whose RSA-OAEP rejects a private key that is not
  paired with the wrapping public key, \<open>decryptMessage\<close> with B's private key on a key
  wrapped under A's public key throws the platform's \<open>OperationError\<close>, unchanged, and
  returns no plaintext. A content that fails AES-GCM authentication under the right key
  makes it throw the same \<open>OperationError\<close>: the source gives the two failures no
  separate kinds.
\<close>

theorem foreign_key_fails_like_tampering:
  assumes "unwrap_isolated cr" and "\<not> paired cr publicKeyA privateKeyB"
    and "rsa_oaep_encrypt cr publicKeyA seed sessionKey = Some w"
    and "select_key keys userId = Inr (b64_encode w)"
    and "select_key keys' userId' = Inr (b64_encode w')"
    and "rsa_oaep_decrypt cr privateKey w' = Some key'" and "length key' = 32"
    and "aes_gcm_decrypt cr key' nonce c = None"
  shows "decryptMessage cr contentString keys ivString privateKeyB userId
           = Inl (DOMException OperationError)
       \<and> decryptMessage cr (b64_encode c) keys' (b64_encode nonce) privateKey userId'
           = Inl (DOMException OperationError)"
proof -
  from assms(1-3) have "rsa_oaep_decrypt cr privateKeyB w = None"
    unfolding unwrap_isolated_def by blast
  from unwrap_failure [OF assms(4) this] authentication_failure [OF assms(5,6,8,7)]
  show ?thesis by simp
qed

lemma ref_unwrap_isolated: "unwrap_isolated ref_platform"
  by (auto simp: unwrap_isolated_def ref_platform_def)

lemma ref_unwraps: "rsa_oaep_decrypt ref_platform 1 (1 # 0 # ref_key) = Some ref_key"
  by (simp add: ref_platform_def)

lemma ref_rejects_tag: "aes_gcm_decrypt ref_platform ref_key ref_nonce [0, 0] = None"
  by (simp add: ref_platform_def ref_tag_def ref_key_def ref_nonce_def generateKey_aes_def
      getRandomValues12_def ref_random_def upt_conv_Cons)

theorem foreign_key_fails_like_tampering_witness:
  "decryptMessage ref_platform (js ''AAAA'') (Legacy (b64_encode (1 # 0 # ref_key))) (js ''BAUG'')
       2 (js ''bob'') = Inl (DOMException OperationError)
   \<and> decryptMessage ref_platform (b64_encode [0, 0]) (Legacy (b64_encode (1 # 0 # ref_key)))
       (b64_encode ref_nonce) 1 (js ''alice'') = Inl (DOMException OperationError)"
proof (rule foreign_key_fails_like_tampering [OF ref_unwrap_isolated _ ref_wrapped _ _ ref_unwraps
      length_ref_key ref_rejects_tag])
  show "\<not> paired ref_platform (1 :: 8 word) 2" by (simp add: ref_platform_def)
  show "select_key (Legacy (b64_encode (1 # 0 # ref_key))) (js ''bob'')
          = Inr (b64_encode (1 # 0 # ref_key))"
    by (simp add: select_key_def)
  show "select_key (Legacy (b64_encode (1 # 0 # ref_key))) (js ''alice'')
          = Inr (b64_encode (1 # 0 # ref_key))"
    by (simp add: select_key_def)
qed

text \<open>
  The claim as stated says the failure of the unwrap is distinguishable from a failure
  of the content decryption. Bob's entry below is wrapped under key 1 while Bob holds
  key 2; Alice's entry is wrapped under her key 1. Bob's call, and Alice's call on an
  envelope whose content has a wrong tag, end in equal exceptions.
\<close>

theorem foreign_key_counterexample:
  "decryptMessage ref_platform (b64_encode (ref_tag ref_key ref_nonce @ TextEncoder_encode (js ''hello'')))
       (KeyMap [(js ''bob'', b64_encode (1 # 0 # ref_key))]) (b64_encode ref_nonce) 2 (js ''bob'')
     = Inl (DOMException OperationError)
   \<and> decryptMessage ref_platform (b64_encode [0, 0])
       (KeyMap [(js ''alice'', b64_encode (1 # 0 # ref_key))]) (b64_encode ref_nonce) 1 (js ''alice'')
     = Inl (DOMException OperationError)"
proof -
  have ne: "b64_encode (1 # 0 # ref_key) \<noteq> []" by (rule b64_encode_nonempty) simp
  have bob: "select_key (KeyMap [(js ''bob'', b64_encode (1 # 0 # ref_key))]) (js ''bob'')
               = Inr (b64_encode (1 # 0 # ref_key))"
    by (rule select_key_entry) (simp_all add: ne)
  have alice: "select_key (KeyMap [(js ''alice'', b64_encode (1 # 0 # ref_key))]) (js ''alice'')
               = Inr (b64_encode (1 # 0 # ref_key))"
    by (rule select_key_entry) (simp_all add: ne)
  have "rsa_oaep_decrypt ref_platform 2 (1 # 0 # ref_key) = None"
    by (simp add: ref_platform_def)
  from unwrap_failure [OF bob this]
    authentication_failure [OF alice ref_unwraps ref_rejects_tag length_ref_key]
  show ?thesis by simp
qed

end
